theory Spec2Isabelle
  imports Complex_Main "HOL-Library.Word"
begin

unbundle bit_operations_syntax

section \<open>Shared helpers (util.h)\<close>

text \<open>
  The emulator is written in C. Fixed-width unsigned integers are modelled by words of
  the same width, C \<open>int\<close> values that stay far from overflow by \<open>int\<close>, arrays by
  functions from the index, and a pointer that is only ever NULL or the address of the one
  object of the enclosing machine by a flag (\<open>True\<close> = connected).
\<close>

definition FLAG_C :: "8 word" where "FLAG_C = 0x01"
definition FLAG_Z :: "8 word" where "FLAG_Z = 0x02"
definition FLAG_I :: "8 word" where "FLAG_I = 0x04"
definition FLAG_D :: "8 word" where "FLAG_D = 0x08"
definition FLAG_B :: "8 word" where "FLAG_B = 0x10"
definition FLAG_U :: "8 word" where "FLAG_U = 0x20"
definition FLAG_V :: "8 word" where "FLAG_V = 0x40"
definition FLAG_N :: "8 word" where "FLAG_N = 0x80"

definition set_bit_u8 :: "8 word \<Rightarrow> 8 word \<Rightarrow> bool \<Rightarrow> 8 word" where
  "set_bit_u8 b m on = (if on then b OR m else b AND NOT m)"

definition make16 :: "8 word \<Rightarrow> 8 word \<Rightarrow> 16 word" where
  "make16 lo hi = ucast lo OR push_bit 8 (ucast hi)"

definition lo8 :: "16 word \<Rightarrow> 8 word" where
  "lo8 v = ucast (v AND 0xFF)"

definition hi8 :: "16 word \<Rightarrow> 8 word" where
  "hi8 v = ucast (drop_bit 8 v AND 0xFF)"

definition page_crossed :: "16 word \<Rightarrow> 16 word \<Rightarrow> bool" where
  "page_crossed a b = (a AND 0xFF00 \<noteq> b AND 0xFF00)"

section \<open>Controller (controller.c)\<close>

record Controller =
  state :: "8 word"
  shift :: "8 word"
  strobe :: bool

definition controller_reset :: "Controller \<Rightarrow> Controller" where
  "controller_reset c = c\<lparr>state := 0, shift := 0, strobe := False\<rparr>"

definition controller_set_state :: "Controller \<Rightarrow> 8 word \<Rightarrow> Controller" where
  "controller_set_state c s = c\<lparr>state := s\<rparr>"

definition controller_write :: "Controller \<Rightarrow> 8 word \<Rightarrow> Controller" where
  "controller_write c data =
     (let new_strobe = (data AND 0x01 \<noteq> 0);
          c1 = c\<lparr>strobe := new_strobe\<rparr>
      in if strobe c1 then c1\<lparr>shift := state c1\<rparr> else c1)"

definition controller_read :: "Controller \<Rightarrow> 8 word \<times> Controller" where
  "controller_read c =
     (let ret = shift c AND 0x01;
          c1 = (if \<not> strobe c then c\<lparr>shift := drop_bit 1 (shift c) OR 0x80\<rparr> else c)
      in (ret OR 0x40, c1))"

text \<open>\<open>k\<close> consecutive reads of the port: the bytes returned, in order, and the
  controller afterwards.\<close>

fun controller_reads :: "nat \<Rightarrow> Controller \<Rightarrow> 8 word list \<times> Controller" where
  "controller_reads 0 c = ([], c)"
| "controller_reads (Suc k) c =
     (let (r, c1) = controller_read c;
          (rs, c2) = controller_reads k c1
      in (r # rs, c2))"

section \<open>Cartridge (cartridge.c)\<close>

datatype MirrorMode = MIRROR_HORIZONTAL | MIRROR_VERTICAL | MIRROR_FOUR

text \<open>The three heap blocks of a cartridge are arrays behind pointers that are NULL until
  the loader allocates them: \<open>None\<close> is the NULL pointer.\<close>

record Cartridge =
  prg_rom :: "(nat \<Rightarrow> 8 word) option"
  prg_rom_size :: "32 word"
  chr :: "(nat \<Rightarrow> 8 word) option"
  chr_size :: "32 word"
  chr_is_ram :: bool
  prg_ram :: "(nat \<Rightarrow> 8 word) option"
  prg_ram_size :: "32 word"
  mapper :: "8 word"
  mirror :: MirrorMode
  battery :: bool
  trainer_present :: bool

definition cart_cpu_read :: "Cartridge \<Rightarrow> 16 word \<Rightarrow> 8 word" where
  "cart_cpu_read c addr =
     (if 0x6000 \<le> addr \<and> addr \<le> 0x7FFF then
        (case prg_ram c of
           Some ram \<Rightarrow> if prg_ram_size c \<noteq> 0 then ram (unat addr - 0x6000) else 0
         | None \<Rightarrow> 0)
      else if 0x8000 \<le> addr then
        (case prg_rom c of
           None \<Rightarrow> 0
         | Some rom \<Rightarrow>
             if prg_rom_size c = 0 then 0
             else
               (let offset = unat addr - 0x8000;
                    offset' = (if prg_rom_size c = 16 * 1024 then offset mod (16 * 1024)
                               else offset mod unat (prg_rom_size c))
                in rom offset'))
      else 0)"

definition cart_cpu_write :: "Cartridge \<Rightarrow> 16 word \<Rightarrow> 8 word \<Rightarrow> Cartridge" where
  "cart_cpu_write c addr data =
     (if 0x6000 \<le> addr \<and> addr \<le> 0x7FFF then
        (case prg_ram c of
           Some ram \<Rightarrow>
             if prg_ram_size c \<noteq> 0 then c\<lparr>prg_ram := Some (ram(unat addr - 0x6000 := data))\<rparr>
             else c
         | None \<Rightarrow> c)
      else c)"

section \<open>PPU (ppu.c)\<close>

text \<open>
  The field \<open>cart\<close> of the PPU is a pointer to the cartridge of the machine (NULL until a
  ROM is loaded); it is modelled by a flag, and every PPU function that follows the
  pointer takes the cartridge it points to as argument \<open>k\<close> (and returns it when it can
  write to character RAM). The C arrays are total functions here: for horizontal
  mirroring \<open>mirror_nt_addr\<close> yields indices up to 0xBFF, beyond the 2 KiB \<open>vram\<close> array
  of the C struct; the model keeps such a cell in \<open>vram\<close> itself.
\<close>

record PPU =
  ppuctrl :: "8 word"
  ppumask :: "8 word"
  ppustatus :: "8 word"
  oamaddr :: "8 word"
  oamdata :: "8 word"
  scroll_latch :: "8 word"
  ppuaddr_hi :: "8 word"
  ppuaddr_lo :: "8 word"
  ppudata_buffer :: "8 word"
  cpu_cycles_accum :: "64 word"
  nmi_pending :: bool
  frame_ready :: bool
  vram :: "nat \<Rightarrow> 8 word"
  palette :: "nat \<Rightarrow> 8 word"
  oam :: "nat \<Rightarrow> 8 word"
  bg_opaque :: "nat \<Rightarrow> 8 word"
  vram_addr_hi :: "8 word"
  vram_addr_lo :: "8 word"
  vram_addr :: "16 word"
  v :: "16 word"
  t :: "16 word"
  x_fine :: "8 word"
  w :: "8 word"
  scroll_x :: "8 word"
  scroll_y :: "8 word"
  cart :: bool
  mirror :: MirrorMode
  framebuffer :: "nat \<Rightarrow> 32 word"
  scanline :: int
  dot :: int
  odd_frame :: bool
  bg_shift_lo :: "16 word"
  bg_shift_hi :: "16 word"
  at_shift_lo :: "16 word"
  at_shift_hi :: "16 word"
  nt_byte :: "8 word"
  at_byte :: "8 word"
  bg_next_lo :: "8 word"
  bg_next_hi :: "8 word"
  spr_count :: "8 word"
  spr_x :: "nat \<Rightarrow> 8 word"
  spr_attr :: "nat \<Rightarrow> 8 word"
  spr_lo :: "nat \<Rightarrow> 8 word"
  spr_hi :: "nat \<Rightarrow> 8 word"
  spr_index :: "nat \<Rightarrow> 8 word"
  spr_count_next :: "8 word"
  spr_x_next :: "nat \<Rightarrow> 8 word"
  spr_attr_next :: "nat \<Rightarrow> 8 word"
  spr_lo_next :: "nat \<Rightarrow> 8 word"
  spr_hi_next :: "nat \<Rightarrow> 8 word"
  spr_index_next :: "nat \<Rightarrow> 8 word"

definition PPU_SCANLINES :: int where "PPU_SCANLINES = 262"
definition PPU_DOTS_PER_LINE :: int where "PPU_DOTS_PER_LINE = 341"

text \<open>\<open>ppu_reset\<close> clears the whole struct with \<open>memset\<close> and then sets the status byte:
  the struct afterwards does not depend on the one before, and the model is a constant.
  The same holds for \<open>cpu_power_on\<close> below.\<close>

definition ppu_reset :: PPU where
  "ppu_reset =
     \<lparr> ppuctrl = 0, ppumask = 0, ppustatus = 0xA0, oamaddr = 0, oamdata = 0,
       scroll_latch = 0, ppuaddr_hi = 0, ppuaddr_lo = 0, ppudata_buffer = 0,
       cpu_cycles_accum = 0, nmi_pending = False, frame_ready = False,
       vram = (\<lambda>_. 0), palette = (\<lambda>_. 0), oam = (\<lambda>_. 0), bg_opaque = (\<lambda>_. 0),
       vram_addr_hi = 0, vram_addr_lo = 0, vram_addr = 0, v = 0, t = 0, x_fine = 0, w = 0,
       scroll_x = 0, scroll_y = 0, PPU.cart = False, PPU.mirror = MIRROR_HORIZONTAL,
       framebuffer = (\<lambda>_. 0), scanline = 0, dot = 0, odd_frame = False,
       bg_shift_lo = 0, bg_shift_hi = 0, at_shift_lo = 0, at_shift_hi = 0,
       nt_byte = 0, at_byte = 0, bg_next_lo = 0, bg_next_hi = 0,
       spr_count = 0, spr_x = (\<lambda>_. 0), spr_attr = (\<lambda>_. 0), spr_lo = (\<lambda>_. 0),
       spr_hi = (\<lambda>_. 0), spr_index = (\<lambda>_. 0),
       spr_count_next = 0, spr_x_next = (\<lambda>_. 0), spr_attr_next = (\<lambda>_. 0),
       spr_lo_next = (\<lambda>_. 0), spr_hi_next = (\<lambda>_. 0), spr_index_next = (\<lambda>_. 0) \<rparr>"

definition ppu_power_on :: PPU where
  "ppu_power_on = ppu_reset"

definition inc_coarse_x :: "PPU \<Rightarrow> PPU" where
  "inc_coarse_x p =
     (if v p AND 0x001F = 31 then p\<lparr>v := (v p AND 0xFFE0) XOR 0x0400\<rparr>
      else p\<lparr>v := v p + 1\<rparr>)"

definition inc_y :: "PPU \<Rightarrow> PPU" where
  "inc_y p =
     (if v p AND 0x7000 \<noteq> 0x7000 then p\<lparr>v := v p + 0x1000\<rparr>
      else
        (let v1 = v p AND 0x8FFF;
             y = drop_bit 5 (v1 AND 0x03E0);
             (y', v2) = (if y = 29 then (0, v1 XOR 0x0800)
                         else if y = 31 then (0, v1)
                         else (y + 1, v1))
         in p\<lparr>v := (v2 AND 0xFC1F) OR push_bit 5 y'\<rparr>))"

definition transfer_horizontal :: "PPU \<Rightarrow> PPU" where
  "transfer_horizontal p = p\<lparr>v := (v p AND 0x7BE0) OR (t p AND 0x041F)\<rparr>"

definition transfer_vertical :: "PPU \<Rightarrow> PPU" where
  "transfer_vertical p = p\<lparr>v := (v p AND 0x041F) OR (t p AND 0x7BE0)\<rparr>"

definition mirror_nt_addr :: "PPU \<Rightarrow> 16 word \<Rightarrow> 16 word" where
  "mirror_nt_addr p addr =
     (let a = (addr - 0x2000) AND 0x0FFF;
          table = a div 0x0400;
          offset = a AND 0x03FF;
          table' = (case PPU.mirror p of
                      MIRROR_VERTICAL \<Rightarrow>
                        if table = 2 then 0 else if table = 3 then 1 else table
                    | MIRROR_HORIZONTAL \<Rightarrow>
                        if table = 1 then 0 else if table = 3 then 2 else table
                    | MIRROR_FOUR \<Rightarrow>
                        if table = 2 then 0 else if table = 3 then 1 else table)
      in table' * 0x0400 + offset)"

definition palette_index :: "16 word \<Rightarrow> 16 word" where
  "palette_index addr =
     (let pal = (addr - 0x3F00) AND 0x1F;
          pal = (if pal = 0x10 then 0x00 else pal);
          pal = (if pal = 0x14 then 0x04 else pal);
          pal = (if pal = 0x18 then 0x08 else pal);
          pal = (if pal = 0x1C then 0x0C else pal)
      in pal)"

definition ppu_read_mem :: "Cartridge \<Rightarrow> PPU \<Rightarrow> 16 word \<Rightarrow> 8 word" where
  "ppu_read_mem k p addr0 =
     (let addr = addr0 AND 0x3FFF
      in if addr < 0x2000 then
           (if \<not> PPU.cart p then 0
            else case chr k of
                   None \<Rightarrow> 0
                 | Some m \<Rightarrow> if chr_size k = 0 then 0 else m (unat addr mod unat (chr_size k)))
         else if addr < 0x3F00 then vram p (unat (mirror_nt_addr p addr))
         else if addr < 0x4000 then palette p (unat (palette_index addr))
         else 0)"

text \<open>A write below 0x2000 into character RAM indexes with \<open>addr % chr_size\<close> without
  testing the size; a loaded cartridge has a size of 8 KiB or more.\<close>

definition ppu_write_mem :: "Cartridge \<Rightarrow> PPU \<Rightarrow> 16 word \<Rightarrow> 8 word \<Rightarrow> Cartridge \<times> PPU" where
  "ppu_write_mem k p addr0 data =
     (let addr = addr0 AND 0x3FFF
      in if addr < 0x2000 then
           (case chr k of
              Some m \<Rightarrow>
                if PPU.cart p \<and> chr_is_ram k
                then (k\<lparr>chr := Some (m(unat addr mod unat (chr_size k) := data))\<rparr>, p)
                else (k, p)
            | None \<Rightarrow> (k, p))
         else if addr < 0x3F00 then
           (k, p\<lparr>vram := (vram p)(unat (mirror_nt_addr p addr) := data)\<rparr>)
         else if addr < 0x4000 then
           (k, p\<lparr>palette := (palette p)(unat (palette_index addr) := data)\<rparr>)
         else (k, p))"

definition ppu_read_reg :: "Cartridge \<Rightarrow> PPU \<Rightarrow> 16 word \<Rightarrow> 8 word \<times> PPU" where
  "ppu_read_reg k p reg0 =
     (let reg = reg0 AND 7
      in if reg = 2 then
           (ppustatus p, p\<lparr>ppustatus := ppustatus p AND 0x7F, scroll_latch := 0, w := 0\<rparr>)
         else if reg = 4 then (oam p (unat (oamaddr p)), p)
         else if reg = 7 then
           (let (ret, p1) =
                  (if 0x3F00 \<le> vram_addr p \<and> vram_addr p < 0x4000
                   then (palette p (unat ((vram_addr p - 0x3F00) AND 0x1F)), p)
                   else (ppudata_buffer p,
                         p\<lparr>ppudata_buffer := ppu_read_mem k p (vram_addr p)\<rparr>));
                inc = (if ppuctrl p1 AND 0x04 \<noteq> 0 then 32 else 1);
                p2 = p1\<lparr>vram_addr := vram_addr p1 + inc\<rparr>;
                p3 = p2\<lparr>ppuaddr_hi := ucast (drop_bit 8 (vram_addr p2))\<rparr>;
                p4 = p3\<lparr>ppuaddr_lo := ucast (vram_addr p3 AND 0xFF)\<rparr>
            in (ret, p4))
         else (0, p))"

definition ppu_write_reg :: "Cartridge \<Rightarrow> PPU \<Rightarrow> 16 word \<Rightarrow> 8 word \<Rightarrow> Cartridge \<times> PPU" where
  "ppu_write_reg k p reg0 data =
     (let reg = reg0 AND 7
      in if reg = 0 then
           (k, p\<lparr>ppuctrl := data,
                 t := (t p AND 0xF3FF) OR push_bit 10 (ucast (data AND 0x03))\<rparr>)
         else if reg = 1 then (k, p\<lparr>ppumask := data\<rparr>)
         else if reg = 3 then (k, p\<lparr>oamaddr := data\<rparr>)
         else if reg = 4 then
           (k, p\<lparr>oam := (oam p)(unat (oamaddr p) := data), oamaddr := oamaddr p + 1\<rparr>)
         else if reg = 5 then
           (if w p = 0 then
              (k, p\<lparr>x_fine := data AND 0x07,
                    t := (t p AND 0xFFE0) OR ucast (drop_bit 3 data),
                    w := 1\<rparr>)
            else
              (let t1 = (t p AND 0x8FFF) OR push_bit 12 (ucast (data AND 0x07));
                   t2 = (t1 AND 0xFC1F) OR push_bit 2 (ucast (data AND 0xF8))
               in (k, p\<lparr>t := t2, w := 0\<rparr>)))
         else if reg = 6 then
           (if w p = 0 then
              (k, p\<lparr>t := (t p AND 0x00FF) OR push_bit 8 (ucast (data AND 0x3F)), w := 1\<rparr>)
            else
              (let t1 = (t p AND 0xFF00) OR ucast data
               in (k, p\<lparr>t := t1, v := t1, w := 0\<rparr>)))
         else if reg = 7 then
           (let (k1, p1) = ppu_write_mem k p (v p) data;
                inc = (if ppuctrl p1 AND 0x04 \<noteq> 0 then 32 else 1);
                p2 = p1\<lparr>v := v p1 + inc\<rparr>;
                p3 = p2\<lparr>ppuaddr_hi := ucast (drop_bit 8 (v p2))\<rparr>;
                p4 = p3\<lparr>ppuaddr_lo := ucast (v p3 AND 0xFF)\<rparr>
            in (k1, p4))
         else (k, p))"

definition ppu_connect_cartridge :: "PPU \<Rightarrow> MirrorMode \<Rightarrow> PPU" where
  "ppu_connect_cartridge p m = p\<lparr>PPU.cart := True, PPU.mirror := m\<rparr>"

definition NES_PALETTE :: "32 word list" where
  "NES_PALETTE =
     [0xFF757575, 0xFF271B8F, 0xFF0000AB, 0xFF47009F, 0xFF8F0077, 0xFFAB0013, 0xFFA70000, 0xFF7F0B00,
      0xFF432F00, 0xFF004700, 0xFF005100, 0xFF003F17, 0xFF1B3F5F, 0xFF000000, 0xFF000000, 0xFF000000,
      0xFFBCBCBC, 0xFF0073EF, 0xFF233BEF, 0xFF8300F3, 0xFFBF00BF, 0xFFE7005B, 0xFFDB2B00, 0xFFCB4F0F,
      0xFF8B7300, 0xFF009700, 0xFF00AB00, 0xFF00933B, 0xFF00838B, 0xFF000000, 0xFF000000, 0xFF000000,
      0xFFFFFFFF, 0xFF3FBFFF, 0xFF5F73FF, 0xFF9F4BFF, 0xFFFF3FFF, 0xFFFF2747, 0xFFFF7B5F, 0xFFFFA347,
      0xFFF3BF3F, 0xFF83D313, 0xFF4FDF4B, 0xFF58F898, 0xFF00EBDB, 0xFF000000, 0xFF000000, 0xFF000000,
      0xFFFFFFFF, 0xFFABE7FF, 0xFFC7D7FF, 0xFFD7CBFF, 0xFFFFC7FF, 0xFFFFC7DB, 0xFFFFBFAB, 0xFFFFDBAB,
      0xFFFFE7A3, 0xFFE3FFA3, 0xFFABF3BF, 0xFFB3FFCF, 0xFF9FFFF3, 0xFF000000, 0xFF000000, 0xFF000000]"

subsection \<open>The blocks of \<open>ppu_step\<close>\<close>

text \<open>\<open>ppu_step\<close> is one long C function. Each of its guarded blocks is a definition
  here, named after what the block does, and \<open>ppu_step\<close> below applies them in the order
  of the source under the guards of the source.\<close>

text \<open>The attribute quadrant switch (it occurs twice in the source, at the preload of
  dot 1 and at the shifter reload).\<close>

definition attr_palette_bits :: "16 word \<Rightarrow> 8 word \<Rightarrow> 8 word" where
  "attr_palette_bits vv attr =
     (let coarse_x = (ucast (vv AND 0x1F) :: 8 word);
          coarse_y = (ucast (drop_bit 5 vv AND 0x1F) :: 8 word);
          quadrant = push_bit 1 (coarse_y AND 0x02) OR (coarse_x AND 0x02)
      in if quadrant = 0x00 then attr AND 0x03
         else if quadrant = 0x02 then drop_bit 2 attr AND 0x03
         else if quadrant = 0x04 then drop_bit 4 attr AND 0x03
         else if quadrant = 0x06 then drop_bit 6 attr AND 0x03
         else attr AND 0x03)"

text \<open>Dot 1 of a visible line: the sprites prepared for this line become the active
  ones and the background shifters are preloaded.\<close>

definition copy_sprite_slot :: "nat \<Rightarrow> PPU \<Rightarrow> PPU" where
  "copy_sprite_slot i p =
     p\<lparr>spr_x := (spr_x p)(i := spr_x_next p i),
       spr_attr := (spr_attr p)(i := spr_attr_next p i),
       spr_lo := (spr_lo p)(i := spr_lo_next p i),
       spr_hi := (spr_hi p)(i := spr_hi_next p i),
       spr_index := (spr_index p)(i := spr_index_next p i)\<rparr>"

definition load_line_sprites :: "PPU \<Rightarrow> PPU" where
  "load_line_sprites p =
     (let p1 = p\<lparr>spr_count := spr_count_next p\<rparr>;
          p2 = fold copy_sprite_slot [0..<unat (spr_count p1)] p1;
          p3 = p2\<lparr>bg_shift_lo := push_bit 8 (ucast (bg_next_lo p2)),
                  bg_shift_hi := push_bit 8 (ucast (bg_next_hi p2))\<rparr>;
          palette_bits = attr_palette_bits (v p3) (at_byte p3)
      in p3\<lparr>at_shift_lo := (if palette_bits AND 0x01 \<noteq> 0 then 0xFF00 else 0x0000),
            at_shift_hi := (if palette_bits AND 0x02 \<noteq> 0 then 0xFF00 else 0x0000)\<rparr>)"

text \<open>The sprite search of a pixel: the first active slot whose x counter is 0 and whose
  top pattern bits are not both 0.\<close>

definition sprite_pix :: "PPU \<Rightarrow> nat \<Rightarrow> 8 word" where
  "sprite_pix p i =
     (let p0s = (if spr_lo p i AND 0x80 \<noteq> 0 then 1 else 0) :: 8 word;
          p1s = (if spr_hi p i AND 0x80 \<noteq> 0 then 1 else 0) :: 8 word
      in push_bit 1 p1s OR p0s)"

fun sprite_pick :: "PPU \<Rightarrow> nat list \<Rightarrow> nat option" where
  "sprite_pick p [] = None"
| "sprite_pick p (i # rest) =
     (if spr_x p i > 0 then sprite_pick p rest
      else if sprite_pix p i = 0 then sprite_pick p rest
      else Some i)"

definition advance_sprite_slot :: "nat \<Rightarrow> PPU \<Rightarrow> PPU" where
  "advance_sprite_slot i p =
     (if spr_x p i > 0 then p\<lparr>spr_x := (spr_x p)(i := spr_x p i - 1)\<rparr>
      else p\<lparr>spr_lo := (spr_lo p)(i := push_bit 1 (spr_lo p i)),
             spr_hi := (spr_hi p)(i := push_bit 1 (spr_hi p i))\<rparr>)"

text \<open>Dots 1..256 of a visible line: one pixel.\<close>

definition render_pixel :: "Cartridge \<Rightarrow> PPU \<Rightarrow> int \<Rightarrow> int \<Rightarrow> PPU" where
  "render_pixel k p sl d =
     (let x = d - 1;
          y = sl;
          (bg_pix0, pal_select) =
             (if ppumask p AND 0x08 \<noteq> 0 then
                (let m = (drop_bit (unat (x_fine p AND 7)) 0x8000 :: 16 word);
                     b0 = (if bg_shift_lo p AND m \<noteq> 0 then 1 else 0) :: 8 word;
                     b1 = (if bg_shift_hi p AND m \<noteq> 0 then 1 else 0) :: 8 word;
                     a0 = (if at_shift_lo p AND m \<noteq> 0 then 1 else 0) :: 8 word;
                     a1 = (if at_shift_hi p AND m \<noteq> 0 then 1 else 0) :: 8 word
                 in (push_bit 1 b1 OR b0, push_bit 1 a1 OR a0))
              else (0, 0));
          bg_pix = (if x < 8 \<and> ppumask p AND 0x02 = 0 then 0 else bg_pix0);
          bg_palette_index =
             (if bg_pix = 0 then ppu_read_mem k p 0x3F00
              else ppu_read_mem k p (0x3F00 + ucast pal_select * 4 + ucast bg_pix));
          bg_color = NES_PALETTE ! unat (bg_palette_index AND 0x3F);
          bg_opaque0 = (bg_pix \<noteq> 0 \<and> ppumask p AND 0x08 \<noteq> 0);
          show_bg = (ppumask p AND 0x08 \<noteq> 0);
          show_spr = (ppumask p AND 0x10 \<noteq> 0);
          mask_left_spr = (ppumask p AND 0x04 = 0);
          (sp_color, sp_opaque, sp0, sp_behind) =
             (if show_spr \<and> \<not> (x < 8 \<and> mask_left_spr) then
                (case sprite_pick p [0..<unat (spr_count p)] of
                   None \<Rightarrow> (0, False, False, False)
                 | Some i \<Rightarrow>
                     (let pix = sprite_pix p i;
                          attr = spr_attr p i;
                          paladdr0 = (0x3F10 + ucast (attr AND 0x03) * 4 + ucast pix :: 16 word);
                          paladdr = (if paladdr0 AND 0x13 = 0x10 then 0x3F00 else paladdr0);
                          pi = ppu_read_mem k p paladdr
                      in (NES_PALETTE ! unat (pi AND 0x3F), True,
                          spr_index p i = 0, attr AND 0x20 \<noteq> 0)))
              else (0, False, False, False));
          use_sprite0 = (sp_opaque \<and> \<not> (sp_behind \<and> bg_opaque0));
          bg_opaque1 = (if \<not> show_bg then False else bg_opaque0);
          use_sprite = (if \<not> show_spr then False else use_sprite0);
          color = (if use_sprite then sp_color else bg_color);
          idx = nat (y * 256 + x);
          p1 = p\<lparr>framebuffer := (framebuffer p)(idx := color)\<rparr>;
          p2 = p1\<lparr>bg_opaque := (bg_opaque p1)(idx := (if bg_opaque1 then 1 else 0))\<rparr>;
          p3 = (if sp0 \<and> use_sprite \<and> bg_opaque1 \<and> x \<noteq> 255
                then p2\<lparr>ppustatus := ppustatus p2 OR 0x40\<rparr> else p2);
          p4 = (if ppumask p3 AND 0x08 \<noteq> 0
                then p3\<lparr>bg_shift_lo := push_bit 1 (bg_shift_lo p3),
                        bg_shift_hi := push_bit 1 (bg_shift_hi p3),
                        at_shift_lo := push_bit 1 (at_shift_lo p3),
                        at_shift_hi := push_bit 1 (at_shift_hi p3)\<rparr>
                else p3);
          p5 = (if show_spr then fold advance_sprite_slot [0..<unat (spr_count p4)] p4 else p4)
      in p5)"

text \<open>Dots 1..256 and 321..336 of a visible or the pre-render line: the background
  fetches and the shifter reload, selected by \<open>dot % 8\<close>.\<close>

definition bg_fetch :: "Cartridge \<Rightarrow> PPU \<Rightarrow> int \<Rightarrow> PPU" where
  "bg_fetch k p d =
     (let ph = d mod 8
      in if ph = 1 then
           p\<lparr>nt_byte := ppu_read_mem k p (0x2000 OR (v p AND 0x0FFF))\<rparr>
         else if ph = 3 then
           p\<lparr>at_byte := ppu_read_mem k p
                 (0x23C0 OR (v p AND 0x0C00) OR (drop_bit 4 (v p) AND 0x38)
                    OR (drop_bit 2 (v p) AND 0x07))\<rparr>
         else if ph = 5 then
           (let fine_y = drop_bit 12 (v p) AND 0x7;
                base = (if ppuctrl p AND 0x10 \<noteq> 0 then 0x1000 else 0x0000) :: 16 word
            in p\<lparr>bg_next_lo := ppu_read_mem k p (base + ucast (nt_byte p) * 16 + fine_y)\<rparr>)
         else if ph = 7 then
           (let fine_y = drop_bit 12 (v p) AND 0x7;
                base = (if ppuctrl p AND 0x10 \<noteq> 0 then 0x1000 else 0x0000) :: 16 word
            in p\<lparr>bg_next_hi := ppu_read_mem k p (base + ucast (nt_byte p) * 16 + fine_y + 8)\<rparr>)
         else if ph = 0 then
           (let p1 = p\<lparr>bg_shift_lo := (bg_shift_lo p AND 0x00FF) OR push_bit 8 (ucast (bg_next_lo p))\<rparr>;
                p2 = p1\<lparr>bg_shift_hi := (bg_shift_hi p1 AND 0x00FF) OR push_bit 8 (ucast (bg_next_hi p1))\<rparr>;
                palette_bits = attr_palette_bits (v p2) (at_byte p2);
                fill_lo = (if palette_bits AND 0x01 \<noteq> 0 then 0xFF00 else 0x0000) :: 16 word;
                p3 = p2\<lparr>at_shift_lo := (at_shift_lo p2 AND 0x00FF) OR fill_lo\<rparr>;
                fill_hi = (if palette_bits AND 0x02 \<noteq> 0 then 0xFF00 else 0x0000) :: 16 word;
                p4 = p3\<lparr>at_shift_hi := (at_shift_hi p3 AND 0x00FF) OR fill_hi\<rparr>
            in if d \<noteq> 256 then inc_coarse_x p4 else p4)
         else p)"

text \<open>Dot 257: sprite evaluation for the next scanline.\<close>

definition reverse_bits :: "8 word \<Rightarrow> 8 word" where
  "reverse_bits x = fold (\<lambda>b r. push_bit 1 r OR (drop_bit b x AND 1)) [0..<8] 0"

definition fetch_sprite :: "Cartridge \<Rightarrow> PPU \<Rightarrow> bool \<Rightarrow> int \<Rightarrow> int \<Rightarrow> nat \<Rightarrow> PPU" where
  "fetch_sprite k p sprites_8x16 height row n =
     (let tile = oam p (n * 4 + 1);
          attr = oam p (n * 4 + 2);
          sx = oam p (n * 4 + 3);
          flip_h = (attr AND 0x40 \<noteq> 0);
          flip_v = (attr AND 0x80 \<noteq> 0);
          r = (if flip_v then height - 1 - row else row);
          (lo, hi) =
             (if \<not> sprites_8x16 then
                (let base = (if ppuctrl p AND 0x08 \<noteq> 0 then 0x1000 else 0x0000) :: 16 word;
                     addr = base + ucast tile * 16 + (word_of_int r AND 7)
                 in (ppu_read_mem k p addr, ppu_read_mem k p (addr + 8)))
              else
                (let top_tile_index = (ucast (tile AND 0xFE) :: 16 word);
                     top_base = (if tile AND 1 \<noteq> 0 then 0x1000 else 0x0000) :: 16 word;
                     tile_row = (if r < 8 then 0 else 1) :: 16 word;
                     in_row = (word_of_int r AND 7 :: 16 word);
                     base = top_base + (top_tile_index + tile_row) * 16
                 in (ppu_read_mem k p (base + in_row), ppu_read_mem k p (base + in_row + 8))));
          (lo, hi) = (if flip_h then (reverse_bits lo, reverse_bits hi) else (lo, hi));
          i = unat (spr_count_next p);
          p1 = p\<lparr>spr_count_next := spr_count_next p + 1\<rparr>
      in p1\<lparr>spr_x_next := (spr_x_next p1)(i := sx),
            spr_attr_next := (spr_attr_next p1)(i := attr),
            spr_lo_next := (spr_lo_next p1)(i := lo),
            spr_hi_next := (spr_hi_next p1)(i := hi),
            spr_index_next := (spr_index_next p1)(i := of_nat n)\<rparr>)"

fun sprite_eval_loop :: "Cartridge \<Rightarrow> bool \<Rightarrow> int \<Rightarrow> int \<Rightarrow> nat list \<Rightarrow> PPU \<Rightarrow> PPU" where
  "sprite_eval_loop k sprites_8x16 height next_scan [] p = p"
| "sprite_eval_loop k sprites_8x16 height next_scan (n # rest) p =
     (let sy = uint (oam p (n * 4 + 0)) + 1;
          row = next_scan - sy
      in if row < 0 \<or> row \<ge> height then sprite_eval_loop k sprites_8x16 height next_scan rest p
         else if spr_count_next p < 8 then
           sprite_eval_loop k sprites_8x16 height next_scan rest
             (fetch_sprite k p sprites_8x16 height row n)
         else p\<lparr>ppustatus := ppustatus p OR 0x20\<rparr>)"

definition sprite_eval :: "Cartridge \<Rightarrow> PPU \<Rightarrow> int \<Rightarrow> PPU" where
  "sprite_eval k p sl =
     (let next_scan = (sl + 1) mod PPU_SCANLINES;
          p1 = p\<lparr>spr_count_next := 0\<rparr>
      in if next_scan < 240 then
           (let p2 = p1\<lparr>ppustatus := ppustatus p1 AND 0xDF\<rparr>;
                sprites_8x16 = (ppuctrl p2 AND 0x20 \<noteq> 0);
                height = (if sprites_8x16 then 16 else 8)
            in sprite_eval_loop k sprites_8x16 height next_scan [0..<64] p2)
         else p1)"

subsection \<open>One dot, and a tick of CPU cycles\<close>

definition ppu_step :: "Cartridge \<Rightarrow> PPU \<Rightarrow> PPU" where
  "ppu_step k p =
     (let sl = scanline p;
          d0 = dot p;
          d = (if sl = 261 \<and> d0 = 0 \<and> ppumask p AND 0x18 \<noteq> 0 \<and> odd_frame p then 1 else d0);
          p1 = (if sl = 241 \<and> d = 1 then
                  (let q = p\<lparr>ppustatus := ppustatus p OR 0x80\<rparr>
                   in if ppuctrl q AND 0x80 \<noteq> 0 then q\<lparr>nmi_pending := True\<rparr> else q)
                else p);
          p2 = (if sl = 261 \<and> d = 1 then
                  (let q = p1\<lparr>ppustatus := ppustatus p1 AND 0x7F\<rparr>
                   in q\<lparr>ppustatus := ppustatus q AND 0xBF\<rparr>)
                else p1);
          rendering_on = (ppumask p2 AND 0x18 \<noteq> 0);
          visible_line = (0 \<le> sl \<and> sl < 240);
          pre_render = (sl = 261);
          p3 = (if rendering_on \<and> visible_line \<and> d = 1 then load_line_sprites p2 else p2);
          p4 = (if rendering_on \<and> visible_line \<and> 1 \<le> d \<and> d \<le> 256
                then render_pixel k p3 sl d else p3);
          p5 = (if rendering_on \<and> (visible_line \<or> pre_render)
                     \<and> ((1 \<le> d \<and> d \<le> 256) \<or> (321 \<le> d \<and> d \<le> 336))
                then bg_fetch k p4 d else p4);
          p6 = (if rendering_on \<and> visible_line \<and> d = 256 then inc_y p5 else p5);
          p7 = (if rendering_on \<and> (visible_line \<or> pre_render) \<and> d = 257
                then transfer_horizontal p6 else p6);
          p8 = (if rendering_on \<and> (visible_line \<or> pre_render) \<and> d = 257
                then sprite_eval k p7 sl else p7);
          p9 = (if rendering_on \<and> pre_render \<and> 280 \<le> d \<and> d \<le> 304
                then transfer_vertical p8 else p8);
          d1 = d + 1
      in if d1 \<ge> PPU_DOTS_PER_LINE then
           (let sl1 = sl + 1
            in if sl1 \<ge> PPU_SCANLINES
               then p9\<lparr>frame_ready := True, odd_frame := \<not> odd_frame p9, scanline := 0, dot := 0\<rparr>
               else p9\<lparr>scanline := sl1, dot := 0\<rparr>)
         else p9\<lparr>scanline := sl, dot := d1\<rparr>)"

primrec ppu_steps :: "Cartridge \<Rightarrow> nat \<Rightarrow> PPU \<Rightarrow> PPU" where
  "ppu_steps k 0 p = p"
| "ppu_steps k (Suc n) p = ppu_steps k n (ppu_step k p)"

text \<open>\<open>for (i = 0; i < cycles * 3; ++i) ppu_step(p)\<close>: no iteration for a count that is
  not positive.\<close>

definition ppu_tick_cpu_cycles :: "Cartridge \<Rightarrow> PPU \<Rightarrow> int \<Rightarrow> PPU" where
  "ppu_tick_cpu_cycles k p cycles = ppu_steps k (nat (cycles * 3)) p"

section \<open>APU (apu.c)\<close>

text \<open>
  The fields of type \<open>double\<close> and \<open>float\<close> (phase accumulators, phase increments,
  volumes) are modelled by real numbers, without the rounding of binary floating point;
  no statement below depends on their values. Of the audio device only the obtained
  sample rate \<open>spec.freq\<close> is kept (\<open>spec_freq\<close>). The audio callback, which runs on
  another thread, is not modelled. The field \<open>bus\<close> is the pointer to the bus of the
  machine: \<open>False\<close> is NULL.
\<close>

record APU =
  spec_freq :: int
  phase :: real
  phase_inc :: real
  volume :: real
  enabled :: bool
  timer :: "16 word"
  tri_phase :: real
  tri_inc :: real
  tri_volume :: real
  tri_enabled :: bool
  tri_timer :: "16 word"
  noise_phase :: real
  noise_inc :: real
  noise_volume :: real
  noise_enabled :: bool
  noise_period_index :: "16 word"
  lfsr :: "16 word"
  noise_mode :: bool
  frame_mode :: int
  irq_inhibit :: bool
  cpu_cycle_mod :: int
  frame_irq :: bool
  p1_env_const :: bool
  p1_env_period :: "8 word"
  p1_env_decay :: "8 word"
  p1_env_loop :: bool
  p1_env_start :: bool
  p1_env_div :: "8 word"
  p1_length :: "8 word"
  tri_linear_reload :: "8 word"
  tri_control :: bool
  tri_length :: "8 word"
  tri_linear_counter :: "8 word"
  noise_env_const :: bool
  noise_env_period :: "8 word"
  noise_env_loop :: bool
  noise_env_decay :: "8 word"
  noise_length :: "8 word"
  noise_env_start :: bool
  noise_env_div :: "8 word"
  dmc_enabled :: bool
  dmc_irq_enable :: bool
  dmc_irq_flag :: bool
  dmc_rate_index :: "8 word"
  dmc_output :: "8 word"
  dmc_sample_start :: "16 word"
  dmc_sample_length :: "16 word"
  dmc_cur_addr :: "16 word"
  dmc_remaining :: "16 word"
  dmc_shift_reg :: "8 word"
  dmc_bits_remaining :: "8 word"
  dmc_buffer_full :: bool
  dmc_buffer :: "8 word"
  dmc_phase :: real
  dmc_inc :: real
  bus :: bool

definition apu_recalc_phase :: "APU \<Rightarrow> APU" where
  "apu_recalc_phase a =
     (if \<not> enabled a \<or> timer a = 0x7FF then a\<lparr>phase_inc := 0\<rparr>
      else
        (let cpu = 1789773 :: real;
             freq = cpu / (16 * (real (unat (timer a)) + 1))
         in if freq < 20 then a\<lparr>phase_inc := 0\<rparr>
            else a\<lparr>phase_inc := freq / real_of_int (spec_freq a)\<rparr>))"

definition apu_recalc_triangle :: "APU \<Rightarrow> APU" where
  "apu_recalc_triangle a =
     (let cpu = 1789773 :: real
      in if \<not> tri_enabled a then a\<lparr>tri_inc := 0\<rparr>
         else
           (let freq = cpu / (32 * (real (unat (tri_timer a)) + 1))
            in if freq < 20 then a\<lparr>tri_inc := 0\<rparr>
               else a\<lparr>tri_inc := freq / real_of_int (spec_freq a)\<rparr>))"

definition NOISE_PERIODS :: "int list" where
  "NOISE_PERIODS = [4, 8, 16, 32, 64, 96, 128, 160, 202, 254, 380, 508, 762, 1016, 2034, 4068]"

definition DMC_PERIODS :: "int list" where
  "DMC_PERIODS = [428, 380, 340, 320, 286, 254, 226, 214, 190, 160, 142, 128, 106, 85, 72, 54]"

definition apu_recalc_noise :: "APU \<Rightarrow> APU" where
  "apu_recalc_noise a =
     (let cpu = 1789773 :: real
      in if \<not> noise_enabled a then a\<lparr>noise_inc := 0\<rparr>
         else
           (let period = NOISE_PERIODS ! unat (noise_period_index a AND 0x0F);
                freq = cpu / real_of_int period
            in if freq < 20 then a\<lparr>noise_inc := 0\<rparr>
               else a\<lparr>noise_inc := freq / real_of_int (spec_freq a)\<rparr>))"

text \<open>\<open>apu_init\<close> after a successful allocation and device open: \<open>calloc\<close> zeroes the
  struct, the assignments follow; the argument is the sample rate the device reports.\<close>

definition apu_init :: "int \<Rightarrow> APU" where
  "apu_init freq =
     \<lparr> spec_freq = freq, phase = 0, phase_inc = 0, volume = 0.1, enabled = True,
       timer = 0x7FF,
       tri_phase = 0, tri_inc = 0, tri_volume = 0.1, tri_enabled = False, tri_timer = 0x7FF,
       noise_phase = 0, noise_inc = 0, noise_volume = 0.05, noise_enabled = False,
       noise_period_index = 0, lfsr = 1, noise_mode = False,
       frame_mode = 0, irq_inhibit = True, cpu_cycle_mod = 0, frame_irq = False,
       p1_env_const = False, p1_env_period = 0, p1_env_decay = 15, p1_env_loop = False,
       p1_env_start = False, p1_env_div = 0, p1_length = 0,
       tri_linear_reload = 0, tri_control = False, tri_length = 0, tri_linear_counter = 0,
       noise_env_const = False, noise_env_period = 0, noise_env_loop = False,
       noise_env_decay = 15, noise_length = 0, noise_env_start = False, noise_env_div = 0,
       dmc_enabled = False, dmc_irq_enable = False, dmc_irq_flag = False,
       dmc_rate_index = 0, dmc_output = 0x20, dmc_sample_start = 0xC000,
       dmc_sample_length = 1, dmc_cur_addr = 0, dmc_remaining = 0, dmc_shift_reg = 0,
       dmc_bits_remaining = 0, dmc_buffer_full = False, dmc_buffer = 0,
       dmc_phase = 0, dmc_inc = 0, APU.bus = False \<rparr>"

text \<open>The body of \<open>apu_connect_bus\<close> is \<open>(void)a; (void)b;\<close>: it stores nothing.\<close>

definition apu_connect_bus :: "APU \<Rightarrow> APU" where
  "apu_connect_bus a = a"

definition LENGTH_TABLE :: "8 word list" where
  "LENGTH_TABLE =
     [10, 254, 20, 2, 40, 4, 80, 6, 160, 8, 60, 10, 14, 12, 26, 14,
      12, 16, 24, 18, 48, 20, 96, 22, 192, 24, 72, 26, 16, 28, 32, 30]"

definition apu_write :: "APU \<Rightarrow> 16 word \<Rightarrow> 8 word \<Rightarrow> APU" where
  "apu_write a addr data =
     (if addr = 0x4000 then
        (let a1 = a\<lparr>p1_env_const := (data AND 0x10 \<noteq> 0)\<rparr>;
             a2 = a1\<lparr>p1_env_loop := (data AND 0x20 \<noteq> 0)\<rparr>;
             a3 = a2\<lparr>p1_env_period := data AND 0x0F\<rparr>;
             vol = real (unat (if p1_env_const a3 then p1_env_period a3 else p1_env_decay a3)) / 15
         in a3\<lparr>volume := vol * 0.2\<rparr>)
      else if addr = 0x4001 then a
      else if addr = 0x4002 then
        apu_recalc_phase (a\<lparr>timer := (timer a AND 0x0700) OR ucast data\<rparr>)
      else if addr = 0x4003 then
        (let a1 = a\<lparr>timer := push_bit 8 (ucast (data AND 0x07)) OR (timer a AND 0x00FF)\<rparr>;
             a2 = a1\<lparr>phase := 0\<rparr>;
             a3 = a2\<lparr>p1_length := LENGTH_TABLE ! unat (drop_bit 3 data AND 0x1F)\<rparr>;
             a4 = a3\<lparr>p1_env_start := True\<rparr>
         in apu_recalc_phase a4)
      else if addr = 0x4008 then
        (let a1 = a\<lparr>tri_control := (data AND 0x80 \<noteq> 0)\<rparr>;
             a2 = a1\<lparr>tri_linear_reload := data AND 0x7F\<rparr>
         in a2\<lparr>tri_volume := real (unat (tri_linear_counter a2 AND 0x1F)) / 31 * 0.2\<rparr>)
      else if addr = 0x400A then
        apu_recalc_triangle (a\<lparr>tri_timer := (tri_timer a AND 0x0700) OR ucast data\<rparr>)
      else if addr = 0x400B then
        (let a1 = a\<lparr>tri_timer := push_bit 8 (ucast (data AND 0x07)) OR (tri_timer a AND 0x00FF)\<rparr>;
             a2 = a1\<lparr>tri_phase := 0\<rparr>;
             a3 = a2\<lparr>tri_length := LENGTH_TABLE ! unat (drop_bit 3 data AND 0x1F)\<rparr>;
             a4 = a3\<lparr>tri_linear_counter := tri_linear_reload a3\<rparr>
         in apu_recalc_triangle a4)
      else if addr = 0x400C then
        (let a1 = a\<lparr>noise_env_const := (data AND 0x10 \<noteq> 0)\<rparr>;
             a2 = a1\<lparr>noise_env_loop := (data AND 0x20 \<noteq> 0)\<rparr>;
             a3 = a2\<lparr>noise_env_period := data AND 0x0F\<rparr>;
             vol = real (unat (if noise_env_const a3 then noise_env_period a3
                               else noise_env_decay a3)) / 15
         in a3\<lparr>noise_volume := vol * 0.2\<rparr>)
      else if addr = 0x400E then
        (let a1 = a\<lparr>noise_period_index := ucast (data AND 0x0F)\<rparr>;
             a2 = a1\<lparr>noise_mode := (data AND 0x80 \<noteq> 0)\<rparr>
         in apu_recalc_noise a2)
      else if addr = 0x400F then
        (let a1 = a\<lparr>lfsr := 1\<rparr>;
             a2 = a1\<lparr>noise_length := LENGTH_TABLE ! unat (drop_bit 3 data AND 0x1F)\<rparr>
         in a2\<lparr>noise_env_start := True\<rparr>)
      else if addr = 0x4015 then
        (let a1 = a\<lparr>enabled := (data AND 0x01 \<noteq> 0)\<rparr>;
             a2 = a1\<lparr>tri_enabled := (data AND 0x04 \<noteq> 0)\<rparr>;
             a3 = a2\<lparr>noise_enabled := (data AND 0x08 \<noteq> 0)\<rparr>;
             dmc_en = (data AND 0x10 \<noteq> 0);
             a4 = (if dmc_en \<and> \<not> dmc_enabled a3 then
                     (let b = a3\<lparr>dmc_enabled := True\<rparr>
                      in if dmc_remaining b = 0
                         then b\<lparr>dmc_cur_addr := dmc_sample_start b,
                                dmc_remaining := dmc_sample_length b\<rparr>
                         else b)
                   else if \<not> dmc_en then a3\<lparr>dmc_enabled := False, dmc_remaining := 0\<rparr>
                   else a3)
         in apu_recalc_noise (apu_recalc_triangle (apu_recalc_phase a4)))
      else if addr = 0x4010 then
        (let a1 = a\<lparr>dmc_irq_enable := (data AND 0x80 \<noteq> 0)\<rparr>;
             a2 = a1\<lparr>dmc_rate_index := data AND 0x0F\<rparr>;
             cpu = 1789773 :: real;
             period = DMC_PERIODS ! unat (dmc_rate_index a2)
         in a2\<lparr>dmc_inc := (cpu / real_of_int period) / real_of_int (spec_freq a2)\<rparr>)
      else if addr = 0x4011 then a\<lparr>dmc_output := data AND 0x7F\<rparr>
      else if addr = 0x4012 then a\<lparr>dmc_sample_start := 0xC000 + push_bit 6 (ucast data)\<rparr>
      else if addr = 0x4013 then a\<lparr>dmc_sample_length := push_bit 4 (ucast data) + 1\<rparr>
      else if addr = 0x4017 then
        a\<lparr>frame_mode := (if data AND 0x80 \<noteq> 0 then 1 else 0),
          irq_inhibit := (data AND 0x40 \<noteq> 0),
          cpu_cycle_mod := 0\<rparr>
      else a)"

definition apu_read :: "APU \<Rightarrow> 16 word \<Rightarrow> 8 word \<times> APU" where
  "apu_read a addr =
     (if addr = 0x4015 then
        (let st = 0;
             st = (if enabled a \<and> p1_length a \<noteq> 0 then st OR 0x01 else st);
             st = (if tri_enabled a \<and> tri_length a \<noteq> 0 then st OR 0x04 else st);
             st = (if noise_enabled a \<and> noise_length a \<noteq> 0 then st OR 0x08 else st);
             st = (if dmc_enabled a \<and> dmc_remaining a \<noteq> 0 then st OR 0x10 else st);
             st = (if frame_irq a then st OR 0x40 else st);
             st = (if dmc_irq_flag a then st OR 0x80 else st)
         in (st, a\<lparr>frame_irq := False, dmc_irq_flag := False\<rparr>))
      else (0, a))"

definition apu_quarter_frame :: "APU \<Rightarrow> APU" where
  "apu_quarter_frame a =
     (let a1 = (if p1_env_start a then
                  a\<lparr>p1_env_start := False, p1_env_decay := 15, p1_env_div := p1_env_period a\<rparr>
                else if p1_env_div a > 0 then a\<lparr>p1_env_div := p1_env_div a - 1\<rparr>
                else
                  (let b = a\<lparr>p1_env_div := p1_env_period a\<rparr>
                   in if p1_env_decay b > 0 then b\<lparr>p1_env_decay := p1_env_decay b - 1\<rparr>
                      else if p1_env_loop b then b\<lparr>p1_env_decay := 15\<rparr>
                      else b));
          a2 = a1\<lparr>volume :=
                   (real (unat (if p1_env_const a1 then p1_env_period a1 else p1_env_decay a1))
                      / 15) * 0.2\<rparr>;
          a3 = (if noise_env_start a2 then
                  a2\<lparr>noise_env_start := False, noise_env_decay := 15,
                      noise_env_div := noise_env_period a2\<rparr>
                else if noise_env_div a2 > 0 then a2\<lparr>noise_env_div := noise_env_div a2 - 1\<rparr>
                else
                  (let b = a2\<lparr>noise_env_div := noise_env_period a2\<rparr>
                   in if noise_env_decay b > 0 then b\<lparr>noise_env_decay := noise_env_decay b - 1\<rparr>
                      else if noise_env_loop b then b\<lparr>noise_env_decay := 15\<rparr>
                      else b));
          a4 = a3\<lparr>noise_volume :=
                   (real (unat (if noise_env_const a3 then noise_env_period a3
                                else noise_env_decay a3)) / 15) * 0.2\<rparr>
      in if tri_control a4 then a4\<lparr>tri_linear_counter := tri_linear_reload a4\<rparr>
         else if tri_linear_counter a4 > 0
         then a4\<lparr>tri_linear_counter := tri_linear_counter a4 - 1\<rparr>
         else a4)"

definition apu_half_frame :: "APU \<Rightarrow> APU" where
  "apu_half_frame a =
     (let a1 = (if \<not> p1_env_loop a \<and> p1_length a > 0
                then a\<lparr>p1_length := p1_length a - 1\<rparr> else a);
          a2 = (if \<not> tri_control a1 \<and> tri_length a1 > 0
                then a1\<lparr>tri_length := tri_length a1 - 1\<rparr> else a1)
      in if \<not> noise_env_loop a2 \<and> noise_length a2 > 0
         then a2\<lparr>noise_length := noise_length a2 - 1\<rparr> else a2)"

definition step_times :: "int list" where
  "step_times = [3729, 7457, 11186, 14916]"

text \<open>One pass of the body of the \<open>while (1)\<close> loop of the frame sequencer, entered with
  \<open>idx > 0\<close>.\<close>

definition intermediate_step :: "nat \<Rightarrow> APU \<Rightarrow> APU" where
  "intermediate_step i a =
     (let a1 = apu_quarter_frame a
      in if i = 1 \<or> i = 3 then apu_half_frame a1 else a1)"

definition frame_seq_body :: "nat \<Rightarrow> APU \<Rightarrow> APU" where
  "frame_seq_body idx a =
     (if cpu_cycle_mod a \<ge> step_times ! 3 then
        (let a1 = a\<lparr>cpu_cycle_mod := cpu_cycle_mod a - step_times ! 3\<rparr>;
             a2 = apu_half_frame (apu_quarter_frame a1)
         in if \<not> irq_inhibit a2 \<and> frame_mode a2 = 0 then a2\<lparr>frame_irq := True\<rparr> else a2)
      else (fold intermediate_step [0..<idx] a)\<lparr>cpu_cycle_mod := 0\<rparr>)"

text \<open>\<open>while (idx < 4 && a->cpu_cycle_mod >= step_times[idx]) idx++\<close>\<close>

definition step_index :: "int \<Rightarrow> nat" where
  "step_index m = length (takeWhile (\<lambda>t. t \<le> m) step_times)"

text \<open>A field selector moves inside a \<open>let\<close>; with it the simplifier reads a field off
  a long chain of bindings without unfolding the chain.\<close>

lemma sel_Let: "g (Let x f) = Let x (\<lambda>y. g (f y))"
  by simp

lemma cpu_cycle_mod_quarter_frame [simp]:
  "cpu_cycle_mod (apu_quarter_frame a) = cpu_cycle_mod a"
  unfolding apu_quarter_frame_def
  by (simp add: sel_Let [of cpu_cycle_mod] if_distrib [of cpu_cycle_mod] cong: if_cong)

lemma cpu_cycle_mod_half_frame [simp]:
  "cpu_cycle_mod (apu_half_frame a) = cpu_cycle_mod a"
  unfolding apu_half_frame_def
  by (simp add: sel_Let [of cpu_cycle_mod] if_distrib [of cpu_cycle_mod] cong: if_cong)

lemma step_index_pos: "step_index m \<noteq> 0 \<Longrightarrow> 3729 \<le> m"
  by (simp add: step_index_def step_times_def split: if_splits)

lemma frame_seq_body_decreases:
  "3729 \<le> cpu_cycle_mod a \<Longrightarrow> cpu_cycle_mod (frame_seq_body idx a) < cpu_cycle_mod a"
  by (simp add: frame_seq_body_def step_times_def Let_def)

function frame_seq_loop :: "APU \<Rightarrow> APU" where
  "frame_seq_loop a =
     (let idx = step_index (cpu_cycle_mod a)
      in if idx = 0 then a else frame_seq_loop (frame_seq_body idx a))"
  by pat_completeness auto
termination
proof (relation "measure (\<lambda>a. nat (cpu_cycle_mod a))")
  show "wf (measure (\<lambda>a. nat (cpu_cycle_mod a)))" by simp
next
  fix a :: APU and idx :: nat
  assume "idx = step_index (cpu_cycle_mod a)" and "idx \<noteq> 0"
  then have ge: "3729 \<le> cpu_cycle_mod a" using step_index_pos by blast
  from frame_seq_body_decreases [OF ge, of idx] ge
  show "(frame_seq_body idx a, a) \<in> measure (\<lambda>a. nat (cpu_cycle_mod a))"
    by simp
qed

declare frame_seq_loop.simps [simp del]

text \<open>The first half of \<open>apu_tick_cpu_cycles\<close>: the frame sequencer.\<close>

definition apu_tick_frame_sequencer :: "APU \<Rightarrow> int \<Rightarrow> APU" where
  "apu_tick_frame_sequencer a cpu_cycles =
     frame_seq_loop (a\<lparr>cpu_cycle_mod := cpu_cycle_mod a + cpu_cycles\<rparr>)"

definition apu_frame_irq_pending :: "APU option \<Rightarrow> bool" where
  "apu_frame_irq_pending ao = (case ao of Some a \<Rightarrow> frame_irq a | None \<Rightarrow> False)"

definition apu_dmc_irq_pending :: "APU option \<Rightarrow> bool" where
  "apu_dmc_irq_pending ao = (case ao of Some a \<Rightarrow> dmc_irq_flag a | None \<Rightarrow> False)"

section \<open>The machine and its bus (nes.h, bus.c)\<close>

text \<open>
  The C structs point at each other: the CPU at the bus, the bus back at the machine, the
  APU (once connected) at the bus. All of them live in the one \<open>NES\<close> struct, so every
  function that follows such a pointer is a function on the whole machine here. The
  pointer fields remain, as flags: \<open>CPU.bus\<close> and \<open>nes\<close> of the bus.
\<close>

record CPU =
  A :: "8 word"
  X :: "8 word"
  Y :: "8 word"
  S :: "8 word"
  PC :: "16 word"
  P :: "8 word"
  bus :: bool
  nmi_line :: bool
  irq_line :: bool
  cycles :: "64 word"

record Bus =
  ram :: "nat \<Rightarrow> 8 word"
  nes :: bool

record NES =
  cpu :: CPU
  ppu :: PPU
  bus :: Bus
  cart :: Cartridge
  ctrl1 :: Controller
  ctrl2 :: Controller
  apu :: "APU option"
  running :: bool

definition bus_cpu_read :: "NES \<Rightarrow> 16 word \<Rightarrow> 8 word \<times> NES" where
  "bus_cpu_read n addr =
     (if \<not> nes (NES.bus n) then (0, n)
      else if addr \<le> 0x1FFF then (ram (NES.bus n) (unat (addr AND 0x07FF)), n)
      else if addr \<le> 0x3FFF then
        (let (r, p1) = ppu_read_reg (NES.cart n) (ppu n) (0x2000 + (addr AND 7))
         in (r, n\<lparr>ppu := p1\<rparr>))
      else if addr = 0x4016 then
        (let (r, c1) = controller_read (ctrl1 n) in (r, n\<lparr>ctrl1 := c1\<rparr>))
      else if addr = 0x4017 then
        (let (r, c2) = controller_read (ctrl2 n) in (r, n\<lparr>ctrl2 := c2\<rparr>))
      else if 0x4000 \<le> addr \<and> addr \<le> 0x4017 then
        (if addr = 0x4015 then
           (case apu n of
              Some a \<Rightarrow> (let (r, a1) = apu_read a addr in (r, n\<lparr>apu := Some a1\<rparr>))
            | None \<Rightarrow> (0x00, n))
         else (0, n))
      else if addr \<ge> 0x6000 then (cart_cpu_read (NES.cart n) addr, n)
      else (0, n))"

text \<open>One iteration of the OAM DMA loop of a write to 0x4014.\<close>

definition oam_dma_step :: "16 word \<Rightarrow> 8 word \<Rightarrow> nat \<Rightarrow> NES \<Rightarrow> NES" where
  "oam_dma_step base start i n =
     (let (b, n1) = bus_cpu_read n (base + of_nat i)
      in n1\<lparr>ppu := (ppu n1)\<lparr>oam := (oam (ppu n1))(unat (start + of_nat i) := b)\<rparr>\<rparr>)"

definition bus_cpu_write :: "NES \<Rightarrow> 16 word \<Rightarrow> 8 word \<Rightarrow> NES" where
  "bus_cpu_write n addr data =
     (if \<not> nes (NES.bus n) then n
      else if addr \<le> 0x1FFF then
        n\<lparr>bus := (NES.bus n)\<lparr>ram := (ram (NES.bus n))(unat (addr AND 0x07FF) := data)\<rparr>\<rparr>
      else if addr \<le> 0x3FFF then
        (let (k1, p1) = ppu_write_reg (NES.cart n) (ppu n) (0x2000 + (addr AND 7)) data
         in n\<lparr>cart := k1, ppu := p1\<rparr>)
      else if addr = 0x4014 then
        (let base = push_bit 8 (ucast data) :: 16 word;
             start = oamaddr (ppu n)
         in fold (oam_dma_step base start) [0..<256] n)
      else if addr = 0x4016 then
        n\<lparr>ctrl1 := controller_write (ctrl1 n) data, ctrl2 := controller_write (ctrl2 n) data\<rparr>
      else if 0x4000 \<le> addr \<and> addr \<le> 0x4017 then
        (case apu n of
           Some a \<Rightarrow> n\<lparr>apu := Some (apu_write a addr data)\<rparr>
         | None \<Rightarrow> n)
      else if addr \<ge> 0x6000 then n\<lparr>cart := cart_cpu_write (NES.cart n) addr data\<rparr>
      else n)"

subsection \<open>The DMC half of \<open>apu_tick_cpu_cycles\<close>\<close>

text \<open>The body of the loop \<open>while (a->dmc_phase >= 1.0)\<close> after the decrement of the
  phase: one DMC clock. It reads the sample byte through the bus, hence through the
  machine; \<open>the (apu n)\<close> is only taken where the caller has checked the pointer.\<close>

definition dmc_fetch :: "NES \<Rightarrow> NES" where
  "dmc_fetch n =
     (let a = the (apu n)
      in if \<not> dmc_buffer_full a \<and> APU.bus a \<and> dmc_remaining a > 0 then
           (let (b, n1) = bus_cpu_read n (dmc_cur_addr a);
                a1 = the (apu n1);
                a2 = a1\<lparr>dmc_buffer := b\<rparr>;
                a3 = a2\<lparr>dmc_buffer_full := True\<rparr>;
                a4 = a3\<lparr>dmc_cur_addr := dmc_cur_addr a3 + 1\<rparr>;
                a5 = (if dmc_cur_addr a4 = 0x0000 then a4\<lparr>dmc_cur_addr := 0x8000\<rparr> else a4);
                a6 = a5\<lparr>dmc_remaining := dmc_remaining a5 - 1\<rparr>;
                a7 = (if dmc_remaining a6 = 0 \<and> dmc_irq_enable a6
                      then a6\<lparr>dmc_irq_flag := True\<rparr> else a6)
            in n1\<lparr>apu := Some a7\<rparr>)
         else n)"

definition dmc_refill :: "APU \<Rightarrow> APU" where
  "dmc_refill a =
     (if dmc_buffer_full a then
        a\<lparr>dmc_shift_reg := dmc_buffer a, dmc_bits_remaining := 8, dmc_buffer_full := False\<rparr>
      else a\<lparr>dmc_shift_reg := 0xFF, dmc_bits_remaining := 8\<rparr>)"

definition dmc_output_bit :: "APU \<Rightarrow> APU" where
  "dmc_output_bit a =
     (let a1 = (if dmc_shift_reg a AND 1 \<noteq> 0 then
                  (if dmc_output a \<le> 125 then a\<lparr>dmc_output := dmc_output a + 2\<rparr> else a)
                else
                  (if dmc_output a \<ge> 2 then a\<lparr>dmc_output := dmc_output a - 2\<rparr> else a));
          a2 = a1\<lparr>dmc_shift_reg := drop_bit 1 (dmc_shift_reg a1)\<rparr>
      in if dmc_bits_remaining a2 \<noteq> 0
         then a2\<lparr>dmc_bits_remaining := dmc_bits_remaining a2 - 1\<rparr> else a2)"

definition dmc_clock :: "NES \<Rightarrow> NES" where
  "dmc_clock n =
     (let n1 = (if dmc_bits_remaining (the (apu n)) = 0
                then (let m = dmc_fetch n in m\<lparr>apu := Some (dmc_refill (the (apu m)))\<rparr>)
                else n)
      in n1\<lparr>apu := Some (dmc_output_bit (the (apu n1)))\<rparr>)"

text \<open>The loop \<open>while (a->dmc_phase >= 1.0) { a->dmc_phase -= 1.0; ... }\<close>. Its
  termination needs that a DMC clock leaves the phase alone, also when its bus read
  lands on the APU status register.\<close>

lemma apu_read_dmc_phase: "dmc_phase (snd (apu_read a addr)) = dmc_phase a"
  by (simp add: apu_read_def Let_def)

lemma bus_cpu_read_apu_dmc_phase:
  "apu n = Some a \<Longrightarrow> \<exists>a'. apu (snd (bus_cpu_read n addr)) = Some a' \<and> dmc_phase a' = dmc_phase a"
  unfolding bus_cpu_read_def
  by (auto simp: apu_read_def Let_def split: prod.splits)

lemma dmc_fetch_dmc_phase:
  "apu n = Some a \<Longrightarrow> \<exists>a'. apu (dmc_fetch n) = Some a' \<and> dmc_phase a' = dmc_phase a"
proof -
  assume h: "apu n = Some a"
  obtain b n1 where r: "bus_cpu_read n (dmc_cur_addr a) = (b, n1)" by (cases "bus_cpu_read n (dmc_cur_addr a)")
  from bus_cpu_read_apu_dmc_phase [OF h, of "dmc_cur_addr a"] r
  obtain a1 where a1: "apu n1 = Some a1" "dmc_phase a1 = dmc_phase a" by auto
  show ?thesis
    unfolding dmc_fetch_def using h r a1
    by (simp add: Let_def)
qed

lemma dmc_refill_dmc_phase [simp]: "dmc_phase (dmc_refill a) = dmc_phase a"
  by (simp add: dmc_refill_def)

lemma dmc_output_bit_dmc_phase [simp]: "dmc_phase (dmc_output_bit a) = dmc_phase a"
  by (simp add: dmc_output_bit_def Let_def)

lemma dmc_clock_dmc_phase:
  "apu n = Some a \<Longrightarrow> dmc_phase (the (apu (dmc_clock n))) = dmc_phase a"
proof -
  assume h: "apu n = Some a"
  from dmc_fetch_dmc_phase [OF h] obtain a' where "apu (dmc_fetch n) = Some a'" "dmc_phase a' = dmc_phase a"
    by blast
  then show ?thesis using h
    by (simp add: dmc_clock_def Let_def)
qed

function dmc_loop :: "NES \<Rightarrow> NES" where
  "dmc_loop n =
     (let a = the (apu n)
      in if dmc_phase a \<ge> 1
         then dmc_loop (dmc_clock (n\<lparr>apu := Some (a\<lparr>dmc_phase := dmc_phase a - 1\<rparr>)\<rparr>))
         else n)"
  by pat_completeness auto
termination
proof (relation "measure (\<lambda>n. nat \<lfloor>dmc_phase (the (apu n))\<rfloor>)")
  show "wf (measure (\<lambda>n. nat \<lfloor>dmc_phase (the (apu n))\<rfloor>))" by simp
next
  fix n :: NES and a :: APU
  assume a: "a = the (apu n)" and ge: "1 \<le> dmc_phase a"
  have "dmc_phase (the (apu (dmc_clock (n\<lparr>apu := Some (a\<lparr>dmc_phase := dmc_phase a - 1\<rparr>)\<rparr>))))
          = dmc_phase a - 1"
    using dmc_clock_dmc_phase [of "n\<lparr>apu := Some (a\<lparr>dmc_phase := dmc_phase a - 1\<rparr>)\<rparr>"
                                  "a\<lparr>dmc_phase := dmc_phase a - 1\<rparr>"]
    by simp
  moreover have "nat \<lfloor>dmc_phase a - 1\<rfloor> < nat \<lfloor>dmc_phase a\<rfloor>"
    using ge by linarith
  ultimately show "(dmc_clock (n\<lparr>apu := Some (a\<lparr>dmc_phase := dmc_phase a - 1\<rparr>)\<rparr>), n)
          \<in> measure (\<lambda>n. nat \<lfloor>dmc_phase (the (apu n))\<rfloor>)"
    using a by simp
qed

declare dmc_loop.simps [simp del]

definition apu_tick_cpu_cycles :: "NES \<Rightarrow> int \<Rightarrow> NES" where
  "apu_tick_cpu_cycles n cpu_cycles =
     (case apu n of
        None \<Rightarrow> n
      | Some a \<Rightarrow>
          (let a1 = apu_tick_frame_sequencer a cpu_cycles;
               n1 = n\<lparr>apu := Some a1\<rparr>
           in if dmc_enabled a1 \<and> dmc_inc a1 > 0 then
                dmc_loop (n1\<lparr>apu := Some (a1\<lparr>dmc_phase := dmc_phase a1
                                                  + dmc_inc a1 * real_of_int cpu_cycles\<rparr>)\<rparr>)
              else n1))"

section \<open>CPU (cpu.c)\<close>

definition cpu_read :: "NES \<Rightarrow> 16 word \<Rightarrow> 8 word \<times> NES" where
  "cpu_read n addr = (if CPU.bus (cpu n) then bus_cpu_read n addr else (0, n))"

definition cpu_write :: "NES \<Rightarrow> 16 word \<Rightarrow> 8 word \<Rightarrow> NES" where
  "cpu_write n addr b = (if CPU.bus (cpu n) then bus_cpu_write n addr b else n)"

definition push :: "NES \<Rightarrow> 8 word \<Rightarrow> NES" where
  "push n b =
     (let n1 = cpu_write n (0x0100 OR ucast (S (cpu n))) b
      in n1\<lparr>cpu := (cpu n1)\<lparr>S := S (cpu n1) - 1\<rparr>\<rparr>)"

definition pull :: "NES \<Rightarrow> 8 word \<times> NES" where
  "pull n =
     (let n1 = n\<lparr>cpu := (cpu n)\<lparr>S := S (cpu n) + 1\<rparr>\<rparr>
      in cpu_read n1 (0x0100 OR ucast (S (cpu n1))))"

definition set_zn :: "CPU \<Rightarrow> 8 word \<Rightarrow> CPU" where
  "set_zn c b =
     (let c1 = c\<lparr>P := set_bit_u8 (P c) FLAG_Z (b = 0)\<rparr>
      in c1\<lparr>P := set_bit_u8 (P c1) FLAG_N (b AND 0x80 \<noteq> 0)\<rparr>)"

text \<open>\<open>cpu_read(c, c->PC++)\<close>: the byte at the program counter, which is incremented.\<close>

definition fetch8 :: "NES \<Rightarrow> 8 word \<times> NES" where
  "fetch8 n =
     (let pc = PC (cpu n);
          n1 = n\<lparr>cpu := (cpu n)\<lparr>PC := pc + 1\<rparr>\<rparr>
      in cpu_read n1 pc)"

definition fetch16 :: "NES \<Rightarrow> 16 word \<times> NES" where
  "fetch16 n =
     (let (lo, n1) = fetch8 n;
          (hi, n2) = fetch8 n1
      in (make16 lo hi, n2))"

definition cpu_connect_bus :: "CPU \<Rightarrow> CPU" where
  "cpu_connect_bus c = c\<lparr>CPU.bus := True\<rparr>"

definition cpu_power_on :: CPU where
  "cpu_power_on =
     \<lparr> A = 0, X = 0, Y = 0, S = 0xFD, PC = 0, P = FLAG_U OR FLAG_I, CPU.bus = False,
       nmi_line = False, irq_line = False, cycles = 0 \<rparr>"

definition cpu_reset :: "NES \<Rightarrow> NES" where
  "cpu_reset n =
     (let n1 = n\<lparr>cpu := (cpu n)\<lparr>P := P (cpu n) OR FLAG_I\<rparr>\<rparr>;
          n2 = n1\<lparr>cpu := (cpu n1)\<lparr>S := S (cpu n1) - 3\<rparr>\<rparr>;
          (lo, n3) = cpu_read n2 0xFFFC;
          (hi, n4) = cpu_read n3 0xFFFD
      in n4\<lparr>cpu := (cpu n4)\<lparr>PC := make16 lo hi\<rparr>\<rparr>)"

text \<open>The common body of \<open>cpu_irq\<close> and \<open>cpu_nmi\<close>, which differ in the vector only.\<close>

definition interrupt :: "16 word \<Rightarrow> NES \<Rightarrow> NES" where
  "interrupt vec n =
     (let n1 = push n (ucast (drop_bit 8 (PC (cpu n)) AND 0xFF));
          n2 = push n1 (ucast (PC (cpu n1) AND 0xFF));
          p = (P (cpu n2) AND NOT FLAG_B) OR FLAG_U;
          n3 = push n2 p;
          n4 = n3\<lparr>cpu := (cpu n3)\<lparr>P := P (cpu n3) OR FLAG_I\<rparr>\<rparr>;
          (lo, n5) = cpu_read n4 vec;
          (hi, n6) = cpu_read n5 (vec + 1);
          n7 = n6\<lparr>cpu := (cpu n6)\<lparr>PC := make16 lo hi\<rparr>\<rparr>
      in n7\<lparr>cpu := (cpu n7)\<lparr>cycles := cycles (cpu n7) + 7\<rparr>\<rparr>)"

definition cpu_irq :: "NES \<Rightarrow> NES" where
  "cpu_irq n = (if P (cpu n) AND FLAG_I = 0 then interrupt 0xFFFE n else n)"

definition cpu_nmi :: "NES \<Rightarrow> NES" where
  "cpu_nmi n = interrupt 0xFFFA n"

subsection \<open>Addressing helpers\<close>

text \<open>The C struct \<open>Addr\<close> is the pair of the address and the extra cycles.\<close>

type_synonym Addr = "16 word \<times> 8 word"

definition addr_imm :: "NES \<Rightarrow> Addr \<times> NES" where
  "addr_imm n = ((PC (cpu n), 0), n\<lparr>cpu := (cpu n)\<lparr>PC := PC (cpu n) + 1\<rparr>\<rparr>)"

definition addr_zp0 :: "NES \<Rightarrow> Addr \<times> NES" where
  "addr_zp0 n = (let (zp, n1) = fetch8 n in ((ucast zp, 0), n1))"

definition addr_zpx :: "NES \<Rightarrow> Addr \<times> NES" where
  "addr_zpx n = (let (zp, n1) = fetch8 n in ((ucast (zp + X (cpu n1)), 0), n1))"

definition addr_zpy :: "NES \<Rightarrow> Addr \<times> NES" where
  "addr_zpy n = (let (zp, n1) = fetch8 n in ((ucast (zp + Y (cpu n1)), 0), n1))"

definition addr_abs :: "NES \<Rightarrow> Addr \<times> NES" where
  "addr_abs n = (let (a, n1) = fetch16 n in ((a, 0), n1))"

definition addr_abx :: "NES \<Rightarrow> Addr \<times> NES" where
  "addr_abx n =
     (let (base, n1) = fetch16 n;
          a = base + ucast (X (cpu n1))
      in ((a, if page_crossed base a then 1 else 0), n1))"

definition addr_aby :: "NES \<Rightarrow> Addr \<times> NES" where
  "addr_aby n =
     (let (base, n1) = fetch16 n;
          a = base + ucast (Y (cpu n1))
      in ((a, if page_crossed base a then 1 else 0), n1))"

definition addr_ind :: "NES \<Rightarrow> Addr \<times> NES" where
  "addr_ind n =
     (let (ptr, n1) = fetch16 n;
          lo_addr = ptr;
          hi_addr = (ptr AND 0xFF00) OR ((ptr + 1) AND 0x00FF);
          (lo, n2) = cpu_read n1 lo_addr;
          (hi, n3) = cpu_read n2 hi_addr
      in ((make16 lo hi, 0), n3))"

definition addr_izx :: "NES \<Rightarrow> Addr \<times> NES" where
  "addr_izx n =
     (let (b, n1) = fetch8 n;
          t = b + X (cpu n1);
          (lo, n2) = cpu_read n1 (ucast t);
          (hi, n3) = cpu_read n2 (ucast (t + 1))
      in ((make16 lo hi, 0), n3))"

definition addr_izy :: "NES \<Rightarrow> Addr \<times> NES" where
  "addr_izy n =
     (let (t, n1) = fetch8 n;
          (lo, n2) = cpu_read n1 (ucast t);
          (hi, n3) = cpu_read n2 (ucast (t + 1));
          base = make16 lo hi;
          a = base + ucast (Y (cpu n3))
      in ((a, if page_crossed base a then 1 else 0), n3))"

text \<open>\<open>(int8_t)\<close> of the operand byte, added to the program counter after the fetch.\<close>

definition rel_addr :: "NES \<Rightarrow> 16 word \<times> NES" where
  "rel_addr n = (let (off, n1) = fetch8 n in (PC (cpu n1) + scast off, n1))"

subsection \<open>ADC and SBC\<close>

text \<open>The operands of the C expressions are promoted to 32-bit \<open>int\<close>; the sum is
  computed there and truncated by the assignment to a \<open>uint16_t\<close>. In \<open>sbc\<close> the operand
  \<open>~b\<close> is the complement of the promoted \<open>int\<close>, cast to \<open>uint16_t\<close>.\<close>

definition adc :: "CPU \<Rightarrow> 8 word \<Rightarrow> 8 word \<Rightarrow> 8 word \<times> CPU" where
  "adc c a b =
     (let sum = (ucast ((ucast a :: 32 word) + ucast b
                         + (if P c AND FLAG_C \<noteq> 0 then 1 else 0)) :: 16 word);
          res = (ucast sum :: 8 word);
          c1 = c\<lparr>P := set_bit_u8 (P c) FLAG_C (sum > 0xFF)\<rparr>;
          c2 = c1\<lparr>P := set_bit_u8 (P c1) FLAG_V
                     ((NOT (ucast (a XOR b) :: 32 word)) AND ucast (a XOR res) AND 0x80 \<noteq> 0)\<rparr>
      in (res, set_zn c2 res))"

definition sbc :: "CPU \<Rightarrow> 8 word \<Rightarrow> 8 word \<Rightarrow> 8 word \<times> CPU" where
  "sbc c a b =
     (let nb = (ucast (NOT (ucast b :: 32 word)) :: 16 word);
          diff = (ucast ((ucast a :: 32 word) + ucast nb
                          + (if P c AND FLAG_C \<noteq> 0 then 1 else 0)) :: 16 word);
          res = (ucast diff :: 8 word);
          c1 = c\<lparr>P := set_bit_u8 (P c) FLAG_C (diff AND 0x100 \<noteq> 0)\<rparr>;
          c2 = c1\<lparr>P := set_bit_u8 (P c1) FLAG_V ((a XOR b) AND (a XOR res) AND 0x80 \<noteq> 0)\<rparr>
      in (res, set_zn c2 res))"

subsection \<open>The instructions\<close>

text \<open>
  \<open>cpu_step\<close> is a switch over the opcode whose cases repeat a few bodies with different
  addressing helpers and cycle counts. Each body is one definition here, with the
  addressing helper \<open>m\<close>, the cycle count \<open>cyc\<close> and (where the source adds
  \<open>a.extra_cycles\<close>) the flag \<open>pen\<close> as parameters; \<open>optable\<close> lists the cases.
\<close>

definition op_brk :: "NES \<Rightarrow> int \<times> NES" where
  "op_brk n =
     (let n1 = n\<lparr>cpu := (cpu n)\<lparr>PC := PC (cpu n) + 1\<rparr>\<rparr>;
          n2 = push n1 (ucast (drop_bit 8 (PC (cpu n1)) AND 0xFF));
          n3 = push n2 (ucast (PC (cpu n2) AND 0xFF));
          p = P (cpu n3) OR FLAG_B OR FLAG_U;
          n4 = push n3 p;
          n5 = n4\<lparr>cpu := (cpu n4)\<lparr>P := P (cpu n4) OR FLAG_I\<rparr>\<rparr>;
          (lo, n6) = cpu_read n5 0xFFFE;
          (hi, n7) = cpu_read n6 0xFFFF
      in (7, n7\<lparr>cpu := (cpu n7)\<lparr>PC := make16 lo hi\<rparr>\<rparr>))"

text \<open>ORA, AND, EOR: \<open>c->A op= cpu_read(c, a.addr); set_zn(c, c->A)\<close>.\<close>

definition op_logic ::
  "(8 word \<Rightarrow> 8 word \<Rightarrow> 8 word) \<Rightarrow> (NES \<Rightarrow> Addr \<times> NES) \<Rightarrow> int \<Rightarrow> bool \<Rightarrow> NES \<Rightarrow> int \<times> NES" where
  "op_logic f m cyc pen n =
     (let ((a, extra), n1) = m n;
          (b, n2) = cpu_read n1 a;
          c1 = (cpu n2)\<lparr>A := f (A (cpu n2)) b\<rparr>
      in (cyc + (if pen then uint extra else 0), n2\<lparr>cpu := set_zn c1 (A c1)\<rparr>))"

text \<open>ADC, SBC: \<open>c->A = adc(c, c->A, cpu_read(c, a.addr))\<close>.\<close>

definition op_arith ::
  "(CPU \<Rightarrow> 8 word \<Rightarrow> 8 word \<Rightarrow> 8 word \<times> CPU) \<Rightarrow> (NES \<Rightarrow> Addr \<times> NES) \<Rightarrow> int \<Rightarrow> bool
     \<Rightarrow> NES \<Rightarrow> int \<times> NES" where
  "op_arith g m cyc pen n =
     (let ((a, extra), n1) = m n;
          (b, n2) = cpu_read n1 a;
          (res, c1) = g (cpu n2) (A (cpu n2)) b
      in (cyc + (if pen then uint extra else 0), n2\<lparr>cpu := c1\<lparr>A := res\<rparr>\<rparr>))"

text \<open>CMP, CPX, CPY, on the register \<open>r\<close>.\<close>

definition op_compare ::
  "(CPU \<Rightarrow> 8 word) \<Rightarrow> (NES \<Rightarrow> Addr \<times> NES) \<Rightarrow> int \<Rightarrow> bool \<Rightarrow> NES \<Rightarrow> int \<times> NES" where
  "op_compare r m cyc pen n =
     (let ((a, extra), n1) = m n;
          (b, n2) = cpu_read n1 a;
          c = cpu n2;
          t = ((ucast (r c) :: 16 word) - ucast b);
          c1 = c\<lparr>P := set_bit_u8 (P c) FLAG_C (r c \<ge> b)\<rparr>
      in (cyc + (if pen then uint extra else 0), n2\<lparr>cpu := set_zn c1 (ucast t)\<rparr>))"

text \<open>INC, DEC on memory: \<open>v = cpu_read(c, a.addr) + d; cpu_write(c, a.addr, v); set_zn(c, v)\<close>
  with \<open>d\<close> = 1 or -1.\<close>

definition op_incdec ::
  "8 word \<Rightarrow> (NES \<Rightarrow> Addr \<times> NES) \<Rightarrow> int \<Rightarrow> NES \<Rightarrow> int \<times> NES" where
  "op_incdec d m cyc n =
     (let ((a, extra), n1) = m n;
          (b, n2) = cpu_read n1 a;
          b1 = b + d;
          n3 = cpu_write n2 a b1
      in (cyc, n3\<lparr>cpu := set_zn (cpu n3) b1\<rparr>))"

text \<open>The instructions without operand that only change registers, two cycles each.\<close>

definition op_implied :: "(CPU \<Rightarrow> CPU) \<Rightarrow> NES \<Rightarrow> int \<times> NES" where
  "op_implied f n = (2, n\<lparr>cpu := f (cpu n)\<rparr>)"

text \<open>The four shifts and rotates: from the carry and the byte, the new carry and the
  new byte.\<close>

definition asl :: "bool \<Rightarrow> 8 word \<Rightarrow> bool \<times> 8 word" where
  "asl ci b = (b AND 0x80 \<noteq> 0, push_bit 1 b)"

definition lsr :: "bool \<Rightarrow> 8 word \<Rightarrow> bool \<times> 8 word" where
  "lsr ci b = (b AND 1 \<noteq> 0, drop_bit 1 b)"

definition rol :: "bool \<Rightarrow> 8 word \<Rightarrow> bool \<times> 8 word" where
  "rol ci b = (b AND 0x80 \<noteq> 0, push_bit 1 b OR (if ci then 1 else 0))"

definition ror :: "bool \<Rightarrow> 8 word \<Rightarrow> bool \<times> 8 word" where
  "ror ci b = (b AND 1 \<noteq> 0, drop_bit 1 b OR push_bit 7 (if ci then 1 else 0))"

definition shift_acc :: "(bool \<Rightarrow> 8 word \<Rightarrow> bool \<times> 8 word) \<Rightarrow> CPU \<Rightarrow> CPU" where
  "shift_acc sh c =
     (let carry = (P c AND FLAG_C \<noteq> 0);
          (newc, r) = sh carry (A c);
          c1 = c\<lparr>A := r\<rparr>;
          c2 = c1\<lparr>P := set_bit_u8 (P c1) FLAG_C newc\<rparr>
      in set_zn c2 (A c2))"

definition op_shift ::
  "(bool \<Rightarrow> 8 word \<Rightarrow> bool \<times> 8 word) \<Rightarrow> (NES \<Rightarrow> Addr \<times> NES) \<Rightarrow> int \<Rightarrow> NES \<Rightarrow> int \<times> NES" where
  "op_shift sh m cyc n =
     (let ((a, extra), n1) = m n;
          (b, n2) = cpu_read n1 a;
          carry = (P (cpu n2) AND FLAG_C \<noteq> 0);
          (newc, b1) = sh carry b;
          n3 = n2\<lparr>cpu := (cpu n2)\<lparr>P := set_bit_u8 (P (cpu n2)) FLAG_C newc\<rparr>\<rparr>;
          n4 = cpu_write n3 a b1
      in (cyc, n4\<lparr>cpu := set_zn (cpu n4) b1\<rparr>))"

definition op_bit :: "(NES \<Rightarrow> Addr \<times> NES) \<Rightarrow> int \<Rightarrow> NES \<Rightarrow> int \<times> NES" where
  "op_bit m cyc n =
     (let ((a, extra), n1) = m n;
          (b, n2) = cpu_read n1 a;
          c = cpu n2;
          c1 = c\<lparr>P := set_bit_u8 (P c) FLAG_Z (A c AND b = 0)\<rparr>;
          c2 = c1\<lparr>P := set_bit_u8 (P c1) FLAG_V (b AND 0x40 \<noteq> 0)\<rparr>;
          c3 = c2\<lparr>P := set_bit_u8 (P c2) FLAG_N (b AND 0x80 \<noteq> 0)\<rparr>
      in (cyc, n2\<lparr>cpu := c3\<rparr>))"

definition op_jmp :: "(NES \<Rightarrow> Addr \<times> NES) \<Rightarrow> int \<Rightarrow> NES \<Rightarrow> int \<times> NES" where
  "op_jmp m cyc n =
     (let ((a, extra), n1) = m n
      in (cyc, n1\<lparr>cpu := (cpu n1)\<lparr>PC := a\<rparr>\<rparr>))"

definition op_jsr :: "NES \<Rightarrow> int \<times> NES" where
  "op_jsr n =
     (let (a, n1) = fetch16 n;
          ret = PC (cpu n1) - 1;
          n2 = push n1 (hi8 ret);
          n3 = push n2 (lo8 ret)
      in (6, n3\<lparr>cpu := (cpu n3)\<lparr>PC := a\<rparr>\<rparr>))"

definition op_rts :: "NES \<Rightarrow> int \<times> NES" where
  "op_rts n =
     (let (lo, n1) = pull n;
          (hi, n2) = pull n1
      in (6, n2\<lparr>cpu := (cpu n2)\<lparr>PC := make16 lo hi + 1\<rparr>\<rparr>))"

definition op_rti :: "NES \<Rightarrow> int \<times> NES" where
  "op_rti n =
     (let (p, n1) = pull n;
          (lo, n2) = pull n1;
          (hi, n3) = pull n2;
          n4 = n3\<lparr>cpu := (cpu n3)\<lparr>P := (p OR FLAG_U) AND NOT FLAG_B\<rparr>\<rparr>
      in (6, n4\<lparr>cpu := (cpu n4)\<lparr>PC := make16 lo hi\<rparr>\<rparr>))"

text \<open>LDA, LDX, LDY: the register is written by \<open>st\<close>.\<close>

definition op_load ::
  "(8 word \<Rightarrow> CPU \<Rightarrow> CPU) \<Rightarrow> (NES \<Rightarrow> Addr \<times> NES) \<Rightarrow> int \<Rightarrow> bool \<Rightarrow> NES \<Rightarrow> int \<times> NES" where
  "op_load st m cyc pen n =
     (let ((a, extra), n1) = m n;
          (b, n2) = cpu_read n1 a
      in (cyc + (if pen then uint extra else 0), n2\<lparr>cpu := set_zn (st b (cpu n2)) b\<rparr>))"

text \<open>STA, STX, STY: the register is read by \<open>r\<close>.\<close>

definition op_store ::
  "(CPU \<Rightarrow> 8 word) \<Rightarrow> (NES \<Rightarrow> Addr \<times> NES) \<Rightarrow> int \<Rightarrow> NES \<Rightarrow> int \<times> NES" where
  "op_store r m cyc n =
     (let ((a, extra), n1) = m n
      in (cyc, cpu_write n1 a (r (cpu n1))))"

definition op_pla :: "NES \<Rightarrow> int \<times> NES" where
  "op_pla n =
     (let (b, n1) = pull n;
          c1 = (cpu n1)\<lparr>A := b\<rparr>
      in (4, n1\<lparr>cpu := set_zn c1 (A c1)\<rparr>))"

definition op_plp :: "NES \<Rightarrow> int \<times> NES" where
  "op_plp n =
     (let (b, n1) = pull n
      in (4, n1\<lparr>cpu := (cpu n1)\<lparr>P := (b OR FLAG_U) AND NOT FLAG_B\<rparr>\<rparr>))"

definition op_pha :: "NES \<Rightarrow> int \<times> NES" where
  "op_pha n = (3, push n (A (cpu n)))"

definition op_php :: "NES \<Rightarrow> int \<times> NES" where
  "op_php n = (3, push n (P (cpu n) OR FLAG_B OR FLAG_U))"

text \<open>The branches: \<open>cond\<close> reads the status register.\<close>

definition op_branch :: "(8 word \<Rightarrow> bool) \<Rightarrow> NES \<Rightarrow> int \<times> NES" where
  "op_branch cond n =
     (let (t, n1) = rel_addr n
      in if cond (P (cpu n1)) then
           (let cycles0 = (if page_crossed (PC (cpu n1)) t then 1 else 0);
                n2 = n1\<lparr>cpu := (cpu n1)\<lparr>PC := t\<rparr>\<rparr>
            in (cycles0 + 1 + 2, n2))
         else (2, n1))"

text \<open>The cases of the switch, in the order of the source. The case labels are distinct,
  so the first entry for an opcode is the only one.\<close>

definition optable :: "(8 word \<times> (NES \<Rightarrow> int \<times> NES)) list" where
  "optable =
     [(0x00, op_brk),
      (0x09, op_logic (OR) addr_imm 2 False),
      (0x05, op_logic (OR) addr_zp0 3 False),
      (0x15, op_logic (OR) addr_zpx 4 False),
      (0x0D, op_logic (OR) addr_abs 4 False),
      (0x1D, op_logic (OR) addr_abx 4 True),
      (0x19, op_logic (OR) addr_aby 4 True),
      (0x01, op_logic (OR) addr_izx 6 False),
      (0x11, op_logic (OR) addr_izy 5 True),
      (0x29, op_logic (AND) addr_imm 2 False),
      (0x25, op_logic (AND) addr_zp0 3 False),
      (0x35, op_logic (AND) addr_zpx 4 False),
      (0x2D, op_logic (AND) addr_abs 4 False),
      (0x3D, op_logic (AND) addr_abx 4 True),
      (0x39, op_logic (AND) addr_aby 4 True),
      (0x21, op_logic (AND) addr_izx 6 False),
      (0x31, op_logic (AND) addr_izy 5 True),
      (0x49, op_logic (XOR) addr_imm 2 False),
      (0x45, op_logic (XOR) addr_zp0 3 False),
      (0x55, op_logic (XOR) addr_zpx 4 False),
      (0x4D, op_logic (XOR) addr_abs 4 False),
      (0x5D, op_logic (XOR) addr_abx 4 True),
      (0x59, op_logic (XOR) addr_aby 4 True),
      (0x41, op_logic (XOR) addr_izx 6 False),
      (0x51, op_logic (XOR) addr_izy 5 True),
      (0x69, op_arith adc addr_imm 2 False),
      (0x65, op_arith adc addr_zp0 3 False),
      (0x75, op_arith adc addr_zpx 4 False),
      (0x6D, op_arith adc addr_abs 4 False),
      (0x7D, op_arith adc addr_abx 4 True),
      (0x79, op_arith adc addr_aby 4 True),
      (0x61, op_arith adc addr_izx 6 False),
      (0x71, op_arith adc addr_izy 5 True),
      (0xE9, op_arith sbc addr_imm 2 False),
      (0xE5, op_arith sbc addr_zp0 3 False),
      (0xF5, op_arith sbc addr_zpx 4 False),
      (0xED, op_arith sbc addr_abs 4 False),
      (0xFD, op_arith sbc addr_abx 4 True),
      (0xF9, op_arith sbc addr_aby 4 True),
      (0xE1, op_arith sbc addr_izx 6 False),
      (0xF1, op_arith sbc addr_izy 5 True),
      (0xC9, op_compare A addr_imm 2 False),
      (0xC5, op_compare A addr_zp0 3 False),
      (0xD5, op_compare A addr_zpx 4 False),
      (0xCD, op_compare A addr_abs 4 False),
      (0xDD, op_compare A addr_abx 4 True),
      (0xD9, op_compare A addr_aby 4 True),
      (0xC1, op_compare A addr_izx 6 False),
      (0xD1, op_compare A addr_izy 5 True),
      (0xE0, op_compare X addr_imm 2 False),
      (0xE4, op_compare X addr_zp0 3 False),
      (0xEC, op_compare X addr_abs 4 False),
      (0xC0, op_compare Y addr_imm 2 False),
      (0xC4, op_compare Y addr_zp0 3 False),
      (0xCC, op_compare Y addr_abs 4 False),
      (0xE6, op_incdec 1 addr_zp0 5),
      (0xF6, op_incdec 1 addr_zpx 6),
      (0xEE, op_incdec 1 addr_abs 6),
      (0xFE, op_incdec 1 addr_abx 7),
      (0xE8, op_implied (\<lambda>c. let c1 = c\<lparr>X := X c + 1\<rparr> in set_zn c1 (X c1))),
      (0xC8, op_implied (\<lambda>c. let c1 = c\<lparr>Y := Y c + 1\<rparr> in set_zn c1 (Y c1))),
      (0xC6, op_incdec (- 1) addr_zp0 5),
      (0xD6, op_incdec (- 1) addr_zpx 6),
      (0xCE, op_incdec (- 1) addr_abs 6),
      (0xDE, op_incdec (- 1) addr_abx 7),
      (0xCA, op_implied (\<lambda>c. let c1 = c\<lparr>X := X c - 1\<rparr> in set_zn c1 (X c1))),
      (0x88, op_implied (\<lambda>c. let c1 = c\<lparr>Y := Y c - 1\<rparr> in set_zn c1 (Y c1))),
      (0x0A, op_implied (shift_acc asl)),
      (0x06, op_shift asl addr_zp0 5),
      (0x16, op_shift asl addr_zpx 6),
      (0x0E, op_shift asl addr_abs 6),
      (0x1E, op_shift asl addr_abx 7),
      (0x4A, op_implied (shift_acc lsr)),
      (0x46, op_shift lsr addr_zp0 5),
      (0x56, op_shift lsr addr_zpx 6),
      (0x4E, op_shift lsr addr_abs 6),
      (0x5E, op_shift lsr addr_abx 7),
      (0x2A, op_implied (shift_acc rol)),
      (0x26, op_shift rol addr_zp0 5),
      (0x36, op_shift rol addr_zpx 6),
      (0x2E, op_shift rol addr_abs 6),
      (0x3E, op_shift rol addr_abx 7),
      (0x6A, op_implied (shift_acc ror)),
      (0x66, op_shift ror addr_zp0 5),
      (0x76, op_shift ror addr_zpx 6),
      (0x6E, op_shift ror addr_abs 6),
      (0x7E, op_shift ror addr_abx 7),
      (0x24, op_bit addr_zp0 3),
      (0x2C, op_bit addr_abs 4),
      (0x4C, op_jmp addr_abs 3),
      (0x6C, op_jmp addr_ind 5),
      (0x20, op_jsr),
      (0x60, op_rts),
      (0x40, op_rti),
      (0xA9, op_load (\<lambda>b c. c\<lparr>A := b\<rparr>) addr_imm 2 False),
      (0xA5, op_load (\<lambda>b c. c\<lparr>A := b\<rparr>) addr_zp0 3 False),
      (0xB5, op_load (\<lambda>b c. c\<lparr>A := b\<rparr>) addr_zpx 4 False),
      (0xAD, op_load (\<lambda>b c. c\<lparr>A := b\<rparr>) addr_abs 4 False),
      (0xBD, op_load (\<lambda>b c. c\<lparr>A := b\<rparr>) addr_abx 4 True),
      (0xB9, op_load (\<lambda>b c. c\<lparr>A := b\<rparr>) addr_aby 4 True),
      (0xA1, op_load (\<lambda>b c. c\<lparr>A := b\<rparr>) addr_izx 6 False),
      (0xB1, op_load (\<lambda>b c. c\<lparr>A := b\<rparr>) addr_izy 5 True),
      (0xA2, op_load (\<lambda>b c. c\<lparr>X := b\<rparr>) addr_imm 2 False),
      (0xA6, op_load (\<lambda>b c. c\<lparr>X := b\<rparr>) addr_zp0 3 False),
      (0xB6, op_load (\<lambda>b c. c\<lparr>X := b\<rparr>) addr_zpy 4 False),
      (0xAE, op_load (\<lambda>b c. c\<lparr>X := b\<rparr>) addr_abs 4 False),
      (0xBE, op_load (\<lambda>b c. c\<lparr>X := b\<rparr>) addr_aby 4 True),
      (0xA0, op_load (\<lambda>b c. c\<lparr>Y := b\<rparr>) addr_imm 2 False),
      (0xA4, op_load (\<lambda>b c. c\<lparr>Y := b\<rparr>) addr_zp0 3 False),
      (0xB4, op_load (\<lambda>b c. c\<lparr>Y := b\<rparr>) addr_zpx 4 False),
      (0xAC, op_load (\<lambda>b c. c\<lparr>Y := b\<rparr>) addr_abs 4 False),
      (0xBC, op_load (\<lambda>b c. c\<lparr>Y := b\<rparr>) addr_abx 4 True),
      (0x85, op_store A addr_zp0 3),
      (0x95, op_store A addr_zpx 4),
      (0x8D, op_store A addr_abs 4),
      (0x9D, op_store A addr_abx 5),
      (0x99, op_store A addr_aby 5),
      (0x81, op_store A addr_izx 6),
      (0x91, op_store A addr_izy 6),
      (0x86, op_store X addr_zp0 3),
      (0x96, op_store X addr_zpy 4),
      (0x8E, op_store X addr_abs 4),
      (0x84, op_store Y addr_zp0 3),
      (0x94, op_store Y addr_zpx 4),
      (0x8C, op_store Y addr_abs 4),
      (0xAA, op_implied (\<lambda>c. let c1 = c\<lparr>X := A c\<rparr> in set_zn c1 (X c1))),
      (0xA8, op_implied (\<lambda>c. let c1 = c\<lparr>Y := A c\<rparr> in set_zn c1 (Y c1))),
      (0xBA, op_implied (\<lambda>c. let c1 = c\<lparr>X := S c\<rparr> in set_zn c1 (X c1))),
      (0x8A, op_implied (\<lambda>c. let c1 = c\<lparr>A := X c\<rparr> in set_zn c1 (A c1))),
      (0x9A, op_implied (\<lambda>c. c\<lparr>S := X c\<rparr>)),
      (0x98, op_implied (\<lambda>c. let c1 = c\<lparr>A := Y c\<rparr> in set_zn c1 (A c1))),
      (0x68, op_pla),
      (0x28, op_plp),
      (0x48, op_pha),
      (0x08, op_php),
      (0x18, op_implied (\<lambda>c. c\<lparr>P := P c AND NOT FLAG_C\<rparr>)),
      (0xD8, op_implied (\<lambda>c. c\<lparr>P := P c AND NOT FLAG_D\<rparr>)),
      (0x58, op_implied (\<lambda>c. c\<lparr>P := P c AND NOT FLAG_I\<rparr>)),
      (0xB8, op_implied (\<lambda>c. c\<lparr>P := P c AND NOT FLAG_V\<rparr>)),
      (0x38, op_implied (\<lambda>c. c\<lparr>P := P c OR FLAG_C\<rparr>)),
      (0xF8, op_implied (\<lambda>c. c\<lparr>P := P c OR FLAG_D\<rparr>)),
      (0x78, op_implied (\<lambda>c. c\<lparr>P := P c OR FLAG_I\<rparr>)),
      (0xEA, op_implied (\<lambda>c. c)),
      (0x90, op_branch (\<lambda>p. p AND FLAG_C = 0)),
      (0xB0, op_branch (\<lambda>p. p AND FLAG_C \<noteq> 0)),
      (0xF0, op_branch (\<lambda>p. p AND FLAG_Z \<noteq> 0)),
      (0x30, op_branch (\<lambda>p. p AND FLAG_N \<noteq> 0)),
      (0xD0, op_branch (\<lambda>p. p AND FLAG_Z = 0)),
      (0x10, op_branch (\<lambda>p. p AND FLAG_N = 0)),
      (0x50, op_branch (\<lambda>p. p AND FLAG_V = 0)),
      (0x70, op_branch (\<lambda>p. p AND FLAG_V \<noteq> 0))]"

text \<open>\<open>cpu_step\<close>: a pending interrupt is serviced instead of an instruction; an opcode
  without a case is the \<open>default\<close> branch, two cycles and nothing else.\<close>

definition cpu_step :: "NES \<Rightarrow> int \<times> NES" where
  "cpu_step n =
     (if nmi_line (cpu n) then
        (7, cpu_nmi (n\<lparr>cpu := (cpu n)\<lparr>nmi_line := False\<rparr>\<rparr>))
      else if irq_line (cpu n) \<and> P (cpu n) AND FLAG_I = 0 then
        (7, cpu_irq (n\<lparr>cpu := (cpu n)\<lparr>irq_line := False\<rparr>\<rparr>))
      else
        (let (op, n1) = fetch8 n;
             (cyc, n2) = (case map_of optable op of
                            Some f \<Rightarrow> f n1
                          | None \<Rightarrow> (2, n1))
         in (cyc, n2\<lparr>cpu := (cpu n2)\<lparr>cycles := cycles (cpu n2) + of_int cyc\<rparr>\<rparr>)))"

section \<open>The shell (nes.c)\<close>

text \<open>\<open>nes_init\<close> zeroes the machine and powers the parts on. Its second argument
  stands for the audio device: \<open>None\<close> when it cannot be opened, else the sample rate.\<close>

definition nes_init :: "bool \<Rightarrow> int option \<Rightarrow> NES" where
  "nes_init enable_audio dev =
     \<lparr> cpu = cpu_connect_bus cpu_power_on,
       ppu = ppu_power_on,
       bus = \<lparr> ram = (\<lambda>_. 0), nes = True \<rparr>,
       cart = \<lparr> prg_rom = None, prg_rom_size = 0, chr = None, chr_size = 0,
                chr_is_ram = False, prg_ram = None, prg_ram_size = 0, mapper = 0,
                Cartridge.mirror = MIRROR_HORIZONTAL, battery = False,
                trainer_present = False \<rparr>,
       ctrl1 = \<lparr> state = 0, shift = 0, strobe = False \<rparr>,
       ctrl2 = \<lparr> state = 0, shift = 0, strobe = False \<rparr>,
       apu = (if enable_audio
              then (case dev of Some freq \<Rightarrow> Some (apu_connect_bus (apu_init freq)) | None \<Rightarrow> None)
              else None),
       running = False \<rparr>"

text \<open>\<open>nes_load_rom\<close> after a successful \<open>cartridge_load\<close>, which yields \<open>k\<close>.\<close>

definition nes_load_rom :: "NES \<Rightarrow> Cartridge \<Rightarrow> NES" where
  "nes_load_rom n k = n\<lparr>cart := k, ppu := ppu_connect_cartridge (ppu n) (Cartridge.mirror k)\<rparr>"

definition nes_reset :: "NES \<Rightarrow> NES" where
  "nes_reset n =
     (let n1 = cpu_reset n
      in if PC (cpu n1) = 0x0000 then n1\<lparr>cpu := (cpu n1)\<lparr>PC := 0x8000\<rparr>\<rparr> else n1)"

text \<open>The body of the loop of \<open>nes_run_cycles\<close>: the cycles used, and the machine after
  the CPU step, the PPU tick, the APU tick and the forwarding of the interrupt lines.\<close>

definition nes_run_iteration :: "NES \<Rightarrow> int \<times> NES" where
  "nes_run_iteration n =
     (let (used0, n1) = cpu_step n;
          used = (if used0 \<le> 0 then 1 else used0);
          n2 = n1\<lparr>ppu := ppu_tick_cpu_cycles (NES.cart n1) (ppu n1) used\<rparr>;
          n3 = (if nmi_pending (ppu n2)
                then n2\<lparr>ppu := (ppu n2)\<lparr>nmi_pending := False\<rparr>,
                        cpu := (cpu n2)\<lparr>nmi_line := True\<rparr>\<rparr>
                else n2);
          n4 = (case apu n3 of
                  Some a \<Rightarrow>
                    (let m = apu_tick_cpu_cycles n3 used
                     in if apu_frame_irq_pending (apu m) \<or> apu_dmc_irq_pending (apu m)
                        then m\<lparr>cpu := (cpu m)\<lparr>irq_line := True\<rparr>\<rparr> else m)
                | None \<Rightarrow> n3)
      in (used, n4))"

lemma nes_run_iteration_used_pos: "0 < fst (nes_run_iteration n)"
  by (simp add: nes_run_iteration_def Let_def split: prod.splits)

function nes_run_cycles :: "NES \<Rightarrow> int \<Rightarrow> NES" where
  "nes_run_cycles n remaining =
     (if remaining > 0
      then (let (used, n1) = nes_run_iteration n in nes_run_cycles n1 (remaining - used))
      else n)"
  by pat_completeness auto
termination
proof (relation "measure (\<lambda>(n, remaining). nat remaining)")
  show "wf (measure (\<lambda>(n, remaining). nat remaining))" by simp
next
  fix n :: NES and remaining :: int and x :: "int \<times> NES" and used :: int and n1 :: NES
  assume pos: "0 < remaining" and x: "x = nes_run_iteration n" and p: "(used, n1) = x"
  have "0 < used" using nes_run_iteration_used_pos [of n] x p by (metis fst_conv)
  then show "((n1, remaining - used), (n, remaining)) \<in> measure (\<lambda>(n, remaining). nat remaining)"
    using pos by simp
qed

declare nes_run_cycles.simps [simp del]

definition nes_step_instruction :: "NES \<Rightarrow> int \<times> NES" where
  "nes_step_instruction n =
     (let (used0, n1) = cpu_step n;
          used = (if used0 \<le> 0 then 1 else used0);
          n2 = n1\<lparr>ppu := ppu_tick_cpu_cycles (NES.cart n1) (ppu n1) used\<rparr>;
          n3 = (if nmi_pending (ppu n2)
                then n2\<lparr>ppu := (ppu n2)\<lparr>nmi_pending := False\<rparr>,
                        cpu := (cpu n2)\<lparr>nmi_line := True\<rparr>\<rparr>
                else n2)
      in (used, n3))"

section \<open>The controller port\<close>

lemma controller_read_fst:
  "fst (controller_read c) = (if bit (shift c) 0 then 0x41 else 0x40)"
  by (simp add: controller_read_def Let_def and_one_eq mod_2_eq_odd bit_0)

lemma controller_read_snd:
  "\<not> strobe c \<Longrightarrow> snd (controller_read c) = c\<lparr>shift := drop_bit 1 (shift c) OR 0x80\<rparr>"
  by (simp add: controller_read_def Let_def)

lemma bit_0x80: "bit (128 :: 8 word) i = (i = 7)"
proof -
  have "(128 :: 8 word) = 2 ^ 7" by simp
  then show ?thesis by (simp only: bit_exp_iff) auto
qed

lemma shifted_in_bit:
  "bit (drop_bit (Suc 0) (x :: 8 word) OR 128) i = (i = 7 \<or> bit x (Suc i))"
  by (simp only: bit_or_iff bit_drop_bit_eq bit_0x80) auto

lemma controller_reads_unstrobed:
  "\<not> strobe c \<Longrightarrow>
   fst (controller_reads k c) = map (\<lambda>i. if 8 \<le> i \<or> bit (shift c) i then 0x41 else 0x40) [0..<k]"
proof (induction k arbitrary: c)
  case 0
  then show ?case by simp
next
  case (Suc k)
  let ?c1 = "c\<lparr>shift := drop_bit 1 (shift c) OR 0x80\<rparr>"
  have s1: "\<not> strobe ?c1" using Suc.prems by simp
  have r: "controller_read c = (if bit (shift c) 0 then 0x41 else 0x40, ?c1)"
    using controller_read_fst [of c] controller_read_snd [OF Suc.prems]
    by (simp add: prod_eq_iff)
  have "fst (controller_reads (Suc k) c)
          = (if bit (shift c) 0 then 0x41 else 0x40) # fst (controller_reads k ?c1)"
    by (simp add: r split: prod.splits)
  also have "\<dots> = (if bit (shift c) 0 then 0x41 else 0x40)
                   # map (\<lambda>i. if 8 \<le> i \<or> bit (shift ?c1) i then 0x41 else 0x40) [0..<k]"
    using Suc.IH [OF s1] by simp
  also have "\<dots> = map (\<lambda>i. if 8 \<le> i \<or> bit (shift c) i then 0x41 else 0x40) [0..<Suc k]"
    by (auto simp add: upt_rec [of 0 "Suc k"] map_Suc_upt [symmetric] shifted_in_bit
             simp del: upt_Suc)
  finally show ?case .
qed

text \<open>
  Claim C8. For every button state \<open>s\<close> held by the controller, after a write with bit 0
  set followed by a write with bit 0 clear, the \<open>i\<close>-th read of the port (counting from
  0) returns 0x40 with bit 0 equal to bit \<open>i\<close> of \<open>s\<close> for the first eight reads, that is
  A, B, Select, Start, Up, Down, Left, Right in this order, and 0x41 (bit 0 = 1) from the
  ninth read on; so every read has 0x40 in the upper bits.
\<close>

theorem controller_strobe_then_reads:
  assumes "data1 AND 0x01 \<noteq> 0" and "data0 AND 0x01 = 0"
  shows "fst (controller_reads k (controller_write (controller_write c data1) data0))
           = map (\<lambda>i. if i < 8 then (if bit (state c) i then 0x41 else 0x40) else 0x41) [0..<k]"
proof -
  let ?c2 = "controller_write (controller_write c data1) data0"
  have c2: "\<not> strobe ?c2" "shift ?c2 = state c"
    using assms by (simp_all add: controller_write_def Let_def)
  have "fst (controller_reads k ?c2)
          = map (\<lambda>i. if 8 \<le> i \<or> bit (shift ?c2) i then 0x41 else 0x40) [0..<k]"
    by (rule controller_reads_unstrobed [OF c2(1)])
  also have "\<dots> = map (\<lambda>i. if i < 8 then (if bit (state c) i then 0x41 else 0x40) else 0x41) [0..<k]"
    by (auto simp: c2(2))
  finally show ?thesis .
qed

theorem controller_strobe_then_reads_witness:
  "(0x01 :: 8 word) AND 0x01 \<noteq> 0 \<and> (0x00 :: 8 word) AND 0x01 = 0 \<and>
   fst (controller_reads 10
          (controller_write (controller_write \<lparr>state = 0xAA, shift = 0, strobe = False\<rparr> 0x01) 0x00))
     = [0x40, 0x41, 0x40, 0x41, 0x40, 0x41, 0x40, 0x41, 0x41, 0x41]"
proof -
  have a: "(0x01 :: 8 word) AND 0x01 \<noteq> 0" by simp
  have b: "(0x00 :: 8 word) AND 0x01 = 0" by simp
  have m: "map (\<lambda>i. if i < 8 then (if bit (0xAA :: 8 word) i then 0x41 else 0x40) else (0x41 :: 8 word))
             [0..<10] = [0x40, 0x41, 0x40, 0x41, 0x40, 0x41, 0x40, 0x41, 0x41, 0x41]"
    by code_simp
  have "fst (controller_reads 10
          (controller_write (controller_write \<lparr>state = 0xAA, shift = 0, strobe = False\<rparr> 0x01) 0x00))
     = [0x40, 0x41, 0x40, 0x41, 0x40, 0x41, 0x40, 0x41, 0x41, 0x41]"
    using controller_strobe_then_reads [OF a b, of 10 "\<lparr>state = 0xAA, shift = 0, strobe = False\<rparr>"]
    by (simp only: Controller.select_convs m)
  with a b show ?thesis by blast
qed

section \<open>Word arithmetic\<close>

lemma unat8_lt: "unat (a :: 8 word) < 256"
proof -
  have "unat a < 2 ^ LENGTH(8)" by (rule unsigned_less)
  then show ?thesis by simp
qed

lemma unat16_lt: "unat (a :: 16 word) < 65536"
proof -
  have "unat a < 2 ^ LENGTH(16)" by (rule unsigned_less)
  then show ?thesis by simp
qed

lemma and_0x80_8: "((x :: 8 word) AND 0x80 = 0) = (\<not> bit x 7)"
proof -
  have "(0x80 :: 8 word) = 2 ^ 7" by simp
  then show ?thesis by (simp only: and_exp_eq_0_iff_not_bit)
qed

lemma and_0x80_32: "((x :: 32 word) AND 0x80 = 0) = (\<not> bit x 7)"
proof -
  have "(0x80 :: 32 word) = 2 ^ 7" by simp
  then show ?thesis by (simp only: and_exp_eq_0_iff_not_bit)
qed

lemma and_0x100_16: "((x :: 16 word) AND 0x100 \<noteq> 0) = odd (unat x div 256)"
proof -
  have "(0x100 :: 16 word) = 2 ^ 8" by simp
  then have "(x AND 0x100 \<noteq> 0) = bit x 8" by (simp only: and_exp_eq_0_iff_not_bit) simp
  also have "\<dots> = bit (unat x) 8" by (simp add: bit_unsigned_iff)
  also have "\<dots> = odd (unat x div 256)" by (simp add: bit_iff_odd)
  finally show ?thesis .
qed

section \<open>The status bits\<close>

lemma set_bit_u8_same:
  "m \<noteq> 0 \<Longrightarrow> (set_bit_u8 p m on AND m \<noteq> 0) = on"
  by (auto simp: set_bit_u8_def bit_eq_iff bit_simps)

lemma set_bit_u8_other:
  "m AND m' = 0 \<Longrightarrow> set_bit_u8 p m on AND m' = p AND m'"
  by (simp add: set_bit_u8_def bit_eq_iff bit_simps) metis

lemma set_zn_other:
  "FLAG_Z AND m' = 0 \<Longrightarrow> FLAG_N AND m' = 0 \<Longrightarrow> P (set_zn c b) AND m' = P c AND m'"
  by (simp add: set_zn_def Let_def set_bit_u8_other)

section \<open>ADC and SBC\<close>

lemma adc_sum_unat:
  "unat (ucast ((ucast (a :: 8 word) :: 32 word) + ucast (b :: 8 word) + (if ci then 1 else 0)) :: 16 word)
     = unat a + unat b + (if ci then 1 else 0)"
proof -
  have la: "unat a < 256" and lb: "unat b < 256" by (rule unat8_lt)+
  have ua: "unat (ucast a :: 32 word) = unat a" and ub: "unat (ucast b :: 32 word) = unat b"
    using la lb by (simp_all add: unsigned_ucast_eq take_bit_nat_eq_self)
  have "unat ((ucast a :: 32 word) + ucast b + (if ci then 1 else 0))
          = unat a + unat b + (if ci then 1 else 0)"
    using la lb by (simp add: unat_word_ariths ua ub take_bit_nat_eq_self)
  then show ?thesis
    using la lb by (simp add: unsigned_ucast_eq take_bit_nat_eq_self)
qed

lemma adc_overflow_bit:
  "((NOT (ucast ((a :: 8 word) XOR b) :: 32 word)) AND ucast (a XOR res) AND 0x80 \<noteq> 0)
     = ((a XOR res) AND (b XOR res) AND (0x80 :: 8 word) \<noteq> 0)"
  apply (simp only: and.assoc [symmetric] and_0x80_8 and_0x80_32)
  apply (auto simp add: bit_simps)
  done

lemma sbc_overflow_bit:
  "(((a :: 8 word) XOR b) AND (a XOR res) AND 0x80 \<noteq> 0)
     = ((a XOR res) AND (NOT b XOR res) AND (0x80 :: 8 word) \<noteq> 0)"
  apply (simp only: and.assoc [symmetric] and_0x80_8)
  apply (auto simp add: bit_simps)
  done

lemma sbc_operand_eq: "(ucast (NOT (ucast (b :: 8 word) :: 32 word)) :: 16 word) = NOT (ucast b)"
  by (rule bit_word_eqI) (auto simp add: bit_simps)

lemma unat_not16: "unat (NOT x :: 16 word) = 65535 - unat x"
proof -
  have "unat (x + NOT x) = unat (- 1 :: 16 word)" by (simp only: word_add_not)
  moreover have "unat (- 1 :: 16 word) = 65535"
    by (simp add: unsigned_minus_1_eq_mask mask_eq_exp_minus_1)
  moreover have "unat (x + NOT x) = (unat x + unat (NOT x)) mod 65536"
    by (subst unat_word_ariths) simp
  ultimately have m: "(unat x + unat (NOT x)) mod 65536 = 65535" by simp
  have lx: "unat x < 65536" and ln: "unat (NOT x) < 65536" by (rule unat16_lt)+
  show ?thesis
  proof (cases "unat x + unat (NOT x) < 65536")
    case True
    then show ?thesis using m by simp
  next
    case False
    then have "(unat x + unat (NOT x)) mod 65536 = unat x + unat (NOT x) - 65536"
      using lx ln by (simp add: mod_if)
    then show ?thesis using m lx ln by linarith
  qed
qed

lemma sbc_carry_arith:
  assumes "ua < 256" "ub < 256" "ci \<le> 1"
  shows "odd (((ua + (65535 - ub) + ci) mod 65536) div 256) = (\<not> (255 < ua + (255 - ub) + (ci :: nat)))"
proof (cases "255 < ua + (255 - ub) + ci")
  case True
  define r where "r = ua + ci - ub - 1"
  have x: "ua + (65535 - ub) + ci = 65536 + r" and r: "r < 256"
    using True assms by (simp_all add: r_def)
  have "(ua + (65535 - ub) + ci) mod 65536 = r" using r by (simp add: x)
  moreover have "r div 256 = 0" using r by simp
  ultimately have e: "((ua + (65535 - ub) + ci) mod 65536) div 256 = 0" by (simp only:)
  show ?thesis unfolding e using True by simp
next
  case False
  define s where "s = ua + (255 - ub) + ci"
  have x: "ua + (65535 - ub) + ci = 255 * 256 + s" and s: "s < 256"
    using False assms by (simp_all add: s_def)
  have "(ua + (65535 - ub) + ci) mod 65536 = 255 * 256 + s" using s by (simp add: x)
  moreover have "(255 * 256 + s) div 256 = 255" using s by simp
  ultimately have e: "((ua + (65535 - ub) + ci) mod 65536) div 256 = 255" by (simp only:)
  have "odd (255 :: nat)" by simp
  then show ?thesis unfolding e using False by simp
qed


lemma sbc_diff_unat:
  "unat (ucast ((ucast (a :: 8 word) :: 32 word)
                  + ucast (ucast (NOT (ucast (b :: 8 word) :: 32 word)) :: 16 word)
                  + (if ci then 1 else 0)) :: 16 word)
     = (unat a + (65535 - unat b) + (if ci then 1 else 0)) mod 65536"
proof -
  have la: "unat a < 256" and lb: "unat b < 256" by (rule unat8_lt)+
  have ua: "unat (ucast a :: 32 word) = unat a"
    using la by (simp add: unsigned_ucast_eq take_bit_nat_eq_self)
  have ub: "unat (ucast b :: 16 word) = unat b"
    using lb by (simp add: unsigned_ucast_eq take_bit_nat_eq_self)
  have nb: "unat (ucast (NOT (ucast b :: 32 word)) :: 16 word) = 65535 - unat b"
    by (simp only: sbc_operand_eq unat_not16 ub)
  have nb32: "unat (ucast (ucast (NOT (ucast b :: 32 word)) :: 16 word) :: 32 word) = 65535 - unat b"
    by (subst unsigned_ucast_eq) (simp add: nb take_bit_nat_eq_self)
  have "unat ((ucast a :: 32 word) + ucast (ucast (NOT (ucast b :: 32 word)) :: 16 word)
               + (if ci then 1 else 0))
          = unat a + (65535 - unat b) + (if ci then 1 else 0)"
    using la lb by (simp add: unat_word_ariths ua nb32 take_bit_nat_eq_self del: unsigned_ucast_eq)
  then show ?thesis
    by (subst unsigned_ucast_eq) (simp add: take_bit_eq_mod)
qed

lemma unat_not8: "unat (NOT x :: 8 word) = 255 - unat x"
proof -
  have "unat (x + NOT x) = unat (- 1 :: 8 word)" by (simp only: word_add_not)
  moreover have "unat (- 1 :: 8 word) = 255"
    by (simp add: unsigned_minus_1_eq_mask mask_eq_exp_minus_1)
  moreover have "unat (x + NOT x) = (unat x + unat (NOT x)) mod 256"
    by (subst unat_word_ariths) simp
  ultimately have m: "(unat x + unat (NOT x)) mod 256 = 255" by simp
  have lx: "unat x < 256" and ln: "unat (NOT x) < 256" by (rule unat8_lt)+
  show ?thesis
  proof (cases "unat x + unat (NOT x) < 256")
    case True
    then show ?thesis using m by simp
  next
    case False
    then have "(unat x + unat (NOT x)) mod 256 = unat x + unat (NOT x) - 256"
      using lx ln by (simp add: mod_if)
    then show ?thesis using m lx ln by linarith
  qed
qed

lemma flag_simps:
  "FLAG_C \<noteq> 0" "FLAG_V \<noteq> 0"
  "FLAG_V AND FLAG_C = 0" "FLAG_Z AND FLAG_C = 0" "FLAG_N AND FLAG_C = 0"
  "FLAG_Z AND FLAG_V = 0" "FLAG_N AND FLAG_V = 0"
  by (simp_all add: FLAG_C_def FLAG_V_def FLAG_Z_def FLAG_N_def)

lemma adc_flags:
  "fst (adc c a b) = a + b + (if P c AND FLAG_C \<noteq> 0 then 1 else 0) \<and>
   (P (snd (adc c a b)) AND FLAG_C \<noteq> 0)
      = (0xFF < unat a + unat b + (if P c AND FLAG_C \<noteq> 0 then 1 else 0)) \<and>
   (P (snd (adc c a b)) AND FLAG_V \<noteq> 0)
      = ((a XOR fst (adc c a b)) AND (b XOR fst (adc c a b)) AND 0x80 \<noteq> 0)"
proof -
  let ?ci = "P c AND FLAG_C \<noteq> 0"
  let ?sum = "(ucast ((ucast a :: 32 word) + ucast b + (if ?ci then 1 else 0)) :: 16 word)"
  let ?res = "(ucast ?sum :: 8 word)"
  have f: "fst (adc c a b) = ?res" by (simp add: adc_def Let_def)
  have su: "unat ?sum = unat a + unat b + (if ?ci then 1 else 0)" by (rule adc_sum_unat)
  have res: "?res = a + b + (if ?ci then 1 else 0)"
    apply (rule word_unat_eq_iff [THEN iffD2])
    apply (subst unsigned_ucast_eq)
    apply (simp only: su)
    apply (simp add: unat_word_ariths take_bit_eq_mod mod_simps)
    done
  have pc: "P (snd (adc c a b)) AND FLAG_C = set_bit_u8 (P c) FLAG_C (?sum > 0xFF) AND FLAG_C"
    by (simp add: adc_def Let_def set_zn_other set_bit_u8_other flag_simps)
  have carry: "(P (snd (adc c a b)) AND FLAG_C \<noteq> 0) = (0xFF < unat ?sum)"
    by (simp only: pc set_bit_u8_same [OF flag_simps(1)]) (simp add: word_less_nat_alt)
  have pv: "P (snd (adc c a b)) AND FLAG_V
              = set_bit_u8 (set_bit_u8 (P c) FLAG_C (?sum > 0xFF)) FLAG_V
                  ((NOT (ucast (a XOR b) :: 32 word)) AND ucast (a XOR ?res) AND 0x80 \<noteq> 0)
                AND FLAG_V"
    by (simp add: adc_def Let_def set_zn_other flag_simps)
  have ov: "(P (snd (adc c a b)) AND FLAG_V \<noteq> 0)
              = ((a XOR ?res) AND (b XOR ?res) AND 0x80 \<noteq> 0)"
    by (simp only: pv set_bit_u8_same [OF flag_simps(2)] adc_overflow_bit)
  show ?thesis
    using res carry ov by (simp only: f su)
qed

lemma sbc_res_arith:
  assumes "ub < 256"
  shows "((ua + (65535 - ub) + ci) mod 65536) mod 256 = (ua + (255 - ub) + ci) mod (256 :: nat)"
proof -
  have e: "ua + (65535 - ub) + ci = (ua + (255 - ub) + ci) + 255 * 256"
    using assms by simp
  have "(256 :: nat) dvd 65536" by simp
  then have "((ua + (65535 - ub) + ci) mod 65536) mod 256 = (ua + (65535 - ub) + ci) mod 256"
    by (rule mod_mod_cancel)
  also have "\<dots> = ((ua + (255 - ub) + ci) + 255 * 256) mod 256"
    by (simp only: e)
  also have "\<dots> = (ua + (255 - ub) + ci) mod 256"
    by (rule mod_mult_self1)
  finally show ?thesis .
qed

lemma sbc_flags:
  "fst (sbc c a b) = a + NOT b + (if P c AND FLAG_C \<noteq> 0 then 1 else 0) \<and>
   (P (snd (sbc c a b)) AND FLAG_C \<noteq> 0)
      = (\<not> 0xFF < unat a + unat (NOT b) + (if P c AND FLAG_C \<noteq> 0 then 1 else 0)) \<and>
   (P (snd (sbc c a b)) AND FLAG_V \<noteq> 0)
      = ((a XOR fst (sbc c a b)) AND (NOT b XOR fst (sbc c a b)) AND 0x80 \<noteq> 0)"
proof -
  let ?ci = "P c AND FLAG_C \<noteq> 0"
  let ?cn = "(if ?ci then 1 else 0) :: nat"
  let ?diff = "(ucast ((ucast a :: 32 word) + ucast (ucast (NOT (ucast b :: 32 word)) :: 16 word)
                        + (if ?ci then 1 else 0)) :: 16 word)"
  let ?res = "(ucast ?diff :: 8 word)"
  have la: "unat a < 256" and lb: "unat b < 256" by (rule unat8_lt)+
  have f: "fst (sbc c a b) = ?res" by (simp add: sbc_def Let_def)
  have du: "unat ?diff = (unat a + (65535 - unat b) + ?cn) mod 65536" by (rule sbc_diff_unat)
  have "unat ?res = unat ?diff mod 256"
    by (subst unsigned_ucast_eq) (simp add: take_bit_eq_mod)
  also have "\<dots> = (unat a + (255 - unat b) + ?cn) mod 256"
    by (simp only: du sbc_res_arith [OF lb])
  also have "\<dots> = unat (a + NOT b + (if ?ci then 1 else 0))"
    by (simp add: unat_word_ariths unat_not8 mod_simps)
  finally have res: "?res = a + NOT b + (if ?ci then 1 else 0)"
    by (rule word_unat_eq_iff [THEN iffD2])
  have pc: "P (snd (sbc c a b)) AND FLAG_C = set_bit_u8 (P c) FLAG_C (?diff AND 0x100 \<noteq> 0) AND FLAG_C"
    by (simp add: sbc_def Let_def set_zn_other set_bit_u8_other flag_simps)
  have "(P (snd (sbc c a b)) AND FLAG_C \<noteq> 0) = odd (unat ?diff div 256)"
    by (simp only: pc set_bit_u8_same [OF flag_simps(1)] and_0x100_16)
  also have "\<dots> = odd (((unat a + (65535 - unat b) + ?cn) mod 65536) div 256)"
    by (simp only: du)
  also have "\<dots> = (\<not> 255 < unat a + (255 - unat b) + ?cn)"
    by (rule sbc_carry_arith [OF la lb]) simp
  finally have carry: "(P (snd (sbc c a b)) AND FLAG_C \<noteq> 0)
                         = (\<not> 0xFF < unat a + unat (NOT b) + ?cn)"
    by (simp only: unat_not8)
  have pv: "P (snd (sbc c a b)) AND FLAG_V
              = set_bit_u8 (set_bit_u8 (P c) FLAG_C (?diff AND 0x100 \<noteq> 0)) FLAG_V
                  ((a XOR b) AND (a XOR ?res) AND 0x80 \<noteq> 0)
                AND FLAG_V"
    by (simp add: sbc_def Let_def set_zn_other flag_simps)
  have ov: "(P (snd (sbc c a b)) AND FLAG_V \<noteq> 0)
              = ((a XOR ?res) AND (NOT b XOR ?res) AND 0x80 \<noteq> 0)"
    by (simp only: pv set_bit_u8_same [OF flag_simps(2)] sbc_overflow_bit)
  show ?thesis
    using res carry ov by (simp only: f)
qed

text \<open>
  Claim C6. ADC is as the claim says (\<open>adc_flags\<close>), and so is the overflow flag of SBC.
  The carry flag of SBC is not: \<open>sbc\<close> adds \<open>(uint16_t)(~b)\<close>, the complement of the
  promoted \<open>int\<close>, whose high byte is 0xFF, and then tests bit 8 of the 16-bit sum, which
  for that operand is set exactly when the 8-bit sum \<open>a + ~b + C\<close> does not exceed 0xFF
  (\<open>sbc_flags\<close>). At \<open>a\<close> = 5, \<open>b\<close> = 3 with the carry set (no borrow), the claim
  asks for the carry to be set, since 5 + 0xFC + 1 = 0x102 > 0xFF; the code clears it.
\<close>

theorem sbc_carry_cleared_at_5_minus_3:
  "fst (sbc (cpu_power_on\<lparr>P := 0x25\<rparr>) 5 3) = 2 \<and>
   0xFF < unat (5 :: 8 word) + unat (NOT 3 :: 8 word) + 1 \<and>
   P (snd (sbc (cpu_power_on\<lparr>P := 0x25\<rparr>) 5 3)) AND FLAG_C = 0"
proof -
  let ?c = "cpu_power_on\<lparr>P := 0x25\<rparr>"
  have ci: "P ?c AND FLAG_C \<noteq> 0" by (simp add: FLAG_C_def)
  have n: "unat (NOT 3 :: 8 word) = 252" by (simp add: unat_not8)
  from sbc_flags [of ?c 5 3] ci n
  have "fst (sbc ?c 5 3) = 5 + NOT 3 + 1" and "\<not> (P (snd (sbc ?c 5 3)) AND FLAG_C \<noteq> 0)"
    by simp_all
  moreover have "(5 :: 8 word) + NOT 3 + 1 = 2" by simp
  ultimately show ?thesis using n by simp
qed

section \<open>The APU status register\<close>

lemma apu_recalc_fields [simp]:
  "enabled (apu_recalc_phase a) = enabled a"
  "tri_enabled (apu_recalc_phase a) = tri_enabled a"
  "noise_enabled (apu_recalc_phase a) = noise_enabled a"
  "dmc_enabled (apu_recalc_phase a) = dmc_enabled a"
  "p1_length (apu_recalc_phase a) = p1_length a"
  "tri_length (apu_recalc_phase a) = tri_length a"
  "noise_length (apu_recalc_phase a) = noise_length a"
  "dmc_remaining (apu_recalc_phase a) = dmc_remaining a"
  "tri_timer (apu_recalc_phase a) = tri_timer a"
  "noise_period_index (apu_recalc_phase a) = noise_period_index a"
  "spec_freq (apu_recalc_phase a) = spec_freq a"
  "enabled (apu_recalc_triangle a) = enabled a"
  "tri_enabled (apu_recalc_triangle a) = tri_enabled a"
  "noise_enabled (apu_recalc_triangle a) = noise_enabled a"
  "dmc_enabled (apu_recalc_triangle a) = dmc_enabled a"
  "p1_length (apu_recalc_triangle a) = p1_length a"
  "tri_length (apu_recalc_triangle a) = tri_length a"
  "noise_length (apu_recalc_triangle a) = noise_length a"
  "dmc_remaining (apu_recalc_triangle a) = dmc_remaining a"
  "noise_period_index (apu_recalc_triangle a) = noise_period_index a"
  "spec_freq (apu_recalc_triangle a) = spec_freq a"
  "enabled (apu_recalc_noise a) = enabled a"
  "tri_enabled (apu_recalc_noise a) = tri_enabled a"
  "noise_enabled (apu_recalc_noise a) = noise_enabled a"
  "dmc_enabled (apu_recalc_noise a) = dmc_enabled a"
  "p1_length (apu_recalc_noise a) = p1_length a"
  "tri_length (apu_recalc_noise a) = tri_length a"
  "noise_length (apu_recalc_noise a) = noise_length a"
  "dmc_remaining (apu_recalc_noise a) = dmc_remaining a"
  by (simp_all add: apu_recalc_phase_def apu_recalc_triangle_def apu_recalc_noise_def Let_def)

lemma apu_write_4015:
  "apu_write a 0x4015 d =
     apu_recalc_noise (apu_recalc_triangle (apu_recalc_phase
       (let a3 = a\<lparr>enabled := (d AND 0x01 \<noteq> 0), tri_enabled := (d AND 0x04 \<noteq> 0),
                     noise_enabled := (d AND 0x08 \<noteq> 0)\<rparr>
        in if d AND 0x10 \<noteq> 0 \<and> \<not> dmc_enabled a then
             (if dmc_remaining a = 0
              then a3\<lparr>dmc_enabled := True, dmc_cur_addr := dmc_sample_start a,
                      dmc_remaining := dmc_sample_length a\<rparr>
              else a3\<lparr>dmc_enabled := True\<rparr>)
           else if d AND 0x10 = 0 then a3\<lparr>dmc_enabled := False, dmc_remaining := 0\<rparr>
           else a3)))"
  by (simp add: apu_write_def Let_def)

text \<open>
  Claim C5, as the code has it. A write of \<open>d\<close> to 0x4015 sets the enable flags of pulse 1,
  triangle, noise and DMC from bits 0, 2, 3 and 4 of \<open>d\<close>. It leaves the length counters
  of pulse 1, triangle and noise as they are, whatever their bits; only the DMC's count of
  remaining bytes is zeroed by a 0 in its bit (and reloaded from the sample length when the
  DMC is switched on with nothing remaining). A read of 0x4015 returns, for each of the
  four channels, whether it is enabled and its counter is not 0, the frame IRQ flag in bit
  6 and the DMC IRQ flag in bit 7, and clears both IRQ flags and nothing else.
\<close>

theorem apu_4015_write_read:
  "enabled (apu_write a 0x4015 d) = (d AND 0x01 \<noteq> 0) \<and>
   tri_enabled (apu_write a 0x4015 d) = (d AND 0x04 \<noteq> 0) \<and>
   noise_enabled (apu_write a 0x4015 d) = (d AND 0x08 \<noteq> 0) \<and>
   dmc_enabled (apu_write a 0x4015 d) = (d AND 0x10 \<noteq> 0) \<and>
   p1_length (apu_write a 0x4015 d) = p1_length a \<and>
   tri_length (apu_write a 0x4015 d) = tri_length a \<and>
   noise_length (apu_write a 0x4015 d) = noise_length a \<and>
   dmc_remaining (apu_write a 0x4015 d)
     = (if d AND 0x10 = 0 then 0
        else if \<not> dmc_enabled a \<and> dmc_remaining a = 0 then dmc_sample_length a
        else dmc_remaining a) \<and>
   fst (apu_read a 0x4015)
     = (if enabled a \<and> p1_length a \<noteq> 0 then 0x01 else 0)
       OR (if tri_enabled a \<and> tri_length a \<noteq> 0 then 0x04 else 0)
       OR (if noise_enabled a \<and> noise_length a \<noteq> 0 then 0x08 else 0)
       OR (if dmc_enabled a \<and> dmc_remaining a \<noteq> 0 then 0x10 else 0)
       OR (if frame_irq a then 0x40 else 0)
       OR (if dmc_irq_flag a then 0x80 else 0) \<and>
   snd (apu_read a 0x4015) = a\<lparr>frame_irq := False, dmc_irq_flag := False\<rparr>"
proof -
  have w: "enabled (apu_write a 0x4015 d) = (d AND 0x01 \<noteq> 0)"
    "tri_enabled (apu_write a 0x4015 d) = (d AND 0x04 \<noteq> 0)"
    "noise_enabled (apu_write a 0x4015 d) = (d AND 0x08 \<noteq> 0)"
    "dmc_enabled (apu_write a 0x4015 d) = (d AND 0x10 \<noteq> 0)"
    "p1_length (apu_write a 0x4015 d) = p1_length a"
    "tri_length (apu_write a 0x4015 d) = tri_length a"
    "noise_length (apu_write a 0x4015 d) = noise_length a"
    "dmc_remaining (apu_write a 0x4015 d)
       = (if d AND 0x10 = 0 then 0
          else if \<not> dmc_enabled a \<and> dmc_remaining a = 0 then dmc_sample_length a
          else dmc_remaining a)"
    by (auto simp add: apu_write_4015 Let_def)
  have r1: "fst (apu_read a 0x4015)
     = (if enabled a \<and> p1_length a \<noteq> 0 then 0x01 else 0)
       OR (if tri_enabled a \<and> tri_length a \<noteq> 0 then 0x04 else 0)
       OR (if noise_enabled a \<and> noise_length a \<noteq> 0 then 0x08 else 0)
       OR (if dmc_enabled a \<and> dmc_remaining a \<noteq> 0 then 0x10 else 0)
       OR (if frame_irq a then 0x40 else 0)
       OR (if dmc_irq_flag a then 0x80 else 0)"
    by (simp add: apu_read_def Let_def)
  have r2: "snd (apu_read a 0x4015) = a\<lparr>frame_irq := False, dmc_irq_flag := False\<rparr>"
    by (simp add: apu_read_def Let_def)
  show ?thesis using w r1 r2 by (simp only:)
qed

text \<open>
  Claim C5 as stated fails for the three channels with a length counter: after a write of
  0x00 to 0x4015, pulse 1 is disabled and its length counter still holds 10.
\<close>

theorem apu_4015_disable_keeps_length:
  "\<not> enabled (apu_write ((apu_init 44100)\<lparr>p1_length := 10\<rparr>) 0x4015 0x00) \<and>
   p1_length (apu_write ((apu_init 44100)\<lparr>p1_length := 10\<rparr>) 0x4015 0x00) = 10"
  by (simp add: apu_write_4015 apu_init_def)

section \<open>VBlank and the status bits\<close>

lemma bg_fetch_fields [simp]:
  "ppustatus (bg_fetch k p d) = ppustatus p"
  "nmi_pending (bg_fetch k p d) = nmi_pending p"
  "ppuctrl (bg_fetch k p d) = ppuctrl p"
  "ppumask (bg_fetch k p d) = ppumask p"
  by (simp_all add: bg_fetch_def inc_coarse_x_def Let_def)

lemma ppu_step_vblank_start:
  "ppustatus (ppu_step k (p\<lparr>scanline := 241, dot := 1\<rparr>)) = ppustatus p OR 0x80"
  "nmi_pending (ppu_step k (p\<lparr>scanline := 241, dot := 1\<rparr>))
     = (if ppuctrl p AND 0x80 = 0 then nmi_pending p else True)"
  by (simp_all add: ppu_step_def Let_def PPU_DOTS_PER_LINE_def PPU_SCANLINES_def)

lemma ppu_step_prerender_dot1:
  "ppustatus (ppu_step k (p\<lparr>scanline := 261, dot := 1\<rparr>)) = (ppustatus p AND 0x7F) AND 0xBF"
  by (simp add: ppu_step_def Let_def PPU_DOTS_PER_LINE_def PPU_SCANLINES_def)

lemma status_clear_mask: "((x :: 8 word) AND 0x7F) AND 0xBF = x AND 0x3F"
  by (simp add: and.assoc)

text \<open>
  Claim C3, as the code has it. The tick at scanline 241, dot 1 sets the VBlank bit (0x80)
  of the status register and leaves the other bits; it sets \<open>nmi_pending\<close> when bit 7 of
  \<open>ppuctrl\<close> is set and leaves it as it was otherwise. The tick at scanline 261, dot 1
  clears the VBlank bit and the sprite-0-hit bit (0x40) and leaves the other six bits,
  among them the sprite-overflow bit (0x20).
\<close>

theorem ppu_step_vblank_status:
  "ppustatus (ppu_step k (p\<lparr>scanline := 241, dot := 1\<rparr>)) = ppustatus p OR 0x80 \<and>
   nmi_pending (ppu_step k (p\<lparr>scanline := 241, dot := 1\<rparr>))
     = (if ppuctrl p AND 0x80 = 0 then nmi_pending p else True) \<and>
   ppustatus (ppu_step k (p\<lparr>scanline := 261, dot := 1\<rparr>)) = ppustatus p AND 0x3F"
  by (simp only: ppu_step_vblank_start ppu_step_prerender_dot1 status_clear_mask)

text \<open>
  Claim C3 as stated fails in its last part: a sprite-overflow bit that is set before the
  tick at scanline 261, dot 1 is still set after it.
\<close>

theorem ppu_step_prerender_keeps_overflow:
  "ppustatus (ppu_step (NES.cart (nes_init False None))
                (ppu_reset\<lparr>ppustatus := 0x20, scanline := 261, dot := 1\<rparr>)) = 0x20"
  by (simp only: ppu_step_prerender_dot1) simp

section \<open>The data port of the PPU\<close>

text \<open>
  A read of register 7 works on the field \<open>vram_addr\<close>: it returns the palette byte when
  \<open>vram_addr\<close> is in 0x3F00..0x3FFF and the read buffer otherwise (refilling the buffer
  from the memory at \<open>vram_addr\<close>), and adds 1 or 32 to \<open>vram_addr\<close>. It never reads or
  writes the loopy address \<open>v\<close>, which is what writes to registers 6 and 7 use; no
  function writes \<open>vram_addr\<close> except this read.
\<close>

lemma ppu_read_reg_2007:
  "ppu_read_reg k p 0x2007 =
     (if 0x3F00 \<le> vram_addr p \<and> vram_addr p < 0x4000
      then (palette p (unat ((vram_addr p - 0x3F00) AND 0x1F)),
            p\<lparr>vram_addr := vram_addr p + (if ppuctrl p AND 0x04 \<noteq> 0 then 32 else 1),
              ppuaddr_hi := ucast (drop_bit 8 (vram_addr p + (if ppuctrl p AND 0x04 \<noteq> 0 then 32 else 1))),
              ppuaddr_lo := ucast ((vram_addr p + (if ppuctrl p AND 0x04 \<noteq> 0 then 32 else 1)) AND 0xFF)\<rparr>)
      else (ppudata_buffer p,
            p\<lparr>ppudata_buffer := ppu_read_mem k p (vram_addr p),
              vram_addr := vram_addr p + (if ppuctrl p AND 0x04 \<noteq> 0 then 32 else 1),
              ppuaddr_hi := ucast (drop_bit 8 (vram_addr p + (if ppuctrl p AND 0x04 \<noteq> 0 then 32 else 1))),
              ppuaddr_lo := ucast ((vram_addr p + (if ppuctrl p AND 0x04 \<noteq> 0 then 32 else 1)) AND 0xFF)\<rparr>))"
  by (simp add: ppu_read_reg_def Let_def)

lemma ppu_read_reg_2007_keeps_v: "v (snd (ppu_read_reg k p 0x2007)) = v p"
  by (simp add: ppu_read_reg_2007)

lemma ppu_write_reg_2007_v:
  "v (snd (ppu_write_reg k p 0x2007 d)) = v p + (if ppuctrl p AND 0x04 \<noteq> 0 then 32 else 1)"
  by (simp add: ppu_write_reg_def ppu_write_mem_def Let_def split: option.splits)

text \<open>
  The machine for the scenario: the PPU after power-on, no cartridge, and the writes
  0x21, 0x08 to register 6, 0x55 to register 7, and 0x21, 0x08 to register 6 again.
\<close>

definition ppudata_test_cart :: Cartridge where
  "ppudata_test_cart = NES.cart (nes_init False None)"

definition ppudata_test_ppu :: PPU where
  "ppudata_test_ppu =
     (let k = ppudata_test_cart;
          p1 = snd (ppu_write_reg k ppu_reset 0x2006 0x21);
          p2 = snd (ppu_write_reg k p1 0x2006 0x08);
          p3 = snd (ppu_write_reg k p2 0x2007 0x55);
          p4 = snd (ppu_write_reg k p3 0x2006 0x21);
          p5 = snd (ppu_write_reg k p4 0x2006 0x08)
      in p5)"

lemma ppudata_test_ppu_fields:
  "v ppudata_test_ppu = 0x2108"
  "vram_addr ppudata_test_ppu = 0"
  "ppudata_buffer ppudata_test_ppu = 0"
  "ppuctrl ppudata_test_ppu = 0"
  "PPU.cart ppudata_test_ppu = False"
  "PPU.mirror ppudata_test_ppu = MIRROR_HORIZONTAL"
  "vram ppudata_test_ppu 0x108 = 0x55"
  by (simp_all add: ppudata_test_ppu_def ppudata_test_cart_def nes_init_def ppu_write_reg_def
        ppu_write_mem_def mirror_nt_addr_def ppu_reset_def Let_def)

text \<open>
  Claim C1 and the code. After the writes above \<open>v\<close> is 0x2108 and the memory there holds
  0x55. By the claim the first read of register 7 fetches from \<open>v\<close> and increments it, so
  the second read returns 0x55. In the code the first read fetches from \<open>vram_addr\<close> = 0
  and increments \<open>vram_addr\<close>; \<open>v\<close> stays 0x2108 and the second read returns 0.
\<close>

theorem ppudata_read_ignores_v:
  "v ppudata_test_ppu = 0x2108 \<and>
   ppu_read_mem ppudata_test_cart ppudata_test_ppu 0x2108 = 0x55 \<and>
   fst (ppu_read_reg ppudata_test_cart
          (snd (ppu_read_reg ppudata_test_cart ppudata_test_ppu 0x2007)) 0x2007) = 0 \<and>
   v (snd (ppu_read_reg ppudata_test_cart ppudata_test_ppu 0x2007)) = 0x2108 \<and>
   vram_addr (snd (ppu_read_reg ppudata_test_cart ppudata_test_ppu 0x2007)) = 1"
proof -
  have m: "ppu_read_mem ppudata_test_cart ppudata_test_ppu 0x2108 = 0x55"
    by (simp add: ppu_read_mem_def mirror_nt_addr_def ppudata_test_ppu_fields Let_def)
  have z: "ppu_read_mem ppudata_test_cart ppudata_test_ppu 0 = 0"
    by (simp add: ppu_read_mem_def ppudata_test_ppu_fields Let_def)
  have r: "fst (ppu_read_reg ppudata_test_cart
                 (snd (ppu_read_reg ppudata_test_cart ppudata_test_ppu 0x2007)) 0x2007) = 0"
    by (simp add: ppu_read_reg_2007 ppudata_test_ppu_fields z word_le_nat_alt)
  show ?thesis
    using m r by (simp add: ppu_read_reg_2007 ppudata_test_ppu_fields)
qed

section \<open>The DMC sample fetch\<close>

text \<open>
  With a bus pointer in the APU, an empty shift register and an empty sample buffer, the
  DMC clock reads the byte at \<open>dmc_cur_addr\<close> through the bus, increments the address
  (0x0000 becomes 0x8000), decrements \<open>dmc_remaining\<close> and raises the IRQ flag when the
  count reaches 0 with the IRQ enabled (\<open>dmc_fetch_connected\<close>). Without the pointer it
  fetches nothing and loads the shift register with 0xFF (\<open>dmc_clock_unconnected\<close>).
\<close>

lemma dmc_fetch_connected:
  assumes "apu n = Some a" and "APU.bus a" and "\<not> dmc_buffer_full a" and "dmc_remaining a > 0"
    and "bus_cpu_read n (dmc_cur_addr a) = (b, n1)" and "apu n1 = Some a1"
  shows "apu (dmc_fetch n)
           = Some (a1\<lparr>dmc_buffer := b, dmc_buffer_full := True,
                      dmc_cur_addr := (if dmc_cur_addr a1 + 1 = 0 then 0x8000 else dmc_cur_addr a1 + 1),
                      dmc_remaining := dmc_remaining a1 - 1,
                      dmc_irq_flag := (if dmc_remaining a1 - 1 = 0 \<and> dmc_irq_enable a1
                                       then True else dmc_irq_flag a1)\<rparr>)"
  using assms by (simp add: dmc_fetch_def Let_def)

lemma dmc_fetch_unconnected:
  "apu n = Some a \<Longrightarrow> \<not> APU.bus a \<Longrightarrow> dmc_fetch n = n"
  by (simp add: dmc_fetch_def Let_def)

lemma dmc_clock_unconnected:
  assumes "apu n = Some a" and "\<not> APU.bus a" and "dmc_bits_remaining a = 0"
    and "\<not> dmc_buffer_full a"
  shows "dmc_clock n
           = n\<lparr>apu := Some (dmc_output_bit (a\<lparr>dmc_shift_reg := 0xFF, dmc_bits_remaining := 8\<rparr>))\<rparr>"
  using assms by (simp add: dmc_clock_def dmc_fetch_unconnected dmc_refill_def Let_def)

text \<open>
  The machine after \<open>nes_init\<close> with audio, and the writes 0x8F to 0x4010 (IRQ enabled,
  rate 15), 0x00 to 0x4013 (one byte) and 0x10 to 0x4015 (DMC on), through the bus.
\<close>

definition dmc_test_machine :: NES where
  "dmc_test_machine =
     bus_cpu_write (bus_cpu_write (bus_cpu_write (nes_init True (Some 44100))
        0x4010 0x8F) 0x4013 0x00) 0x4015 0x10"

definition dmc_test_apu :: APU where
  "dmc_test_apu =
     apu_write (apu_write (apu_write (apu_connect_bus (apu_init 44100))
        0x4010 0x8F) 0x4013 0x00) 0x4015 0x10"

lemma dmc_test_machine_apu: "apu dmc_test_machine = Some dmc_test_apu"
  by (simp add: dmc_test_machine_def dmc_test_apu_def nes_init_def bus_cpu_write_def
        word_le_nat_alt)

lemma dmc_test_apu_fields:
  "APU.bus dmc_test_apu = False"
  "dmc_enabled dmc_test_apu"
  "dmc_irq_enable dmc_test_apu"
  "dmc_irq_flag dmc_test_apu = False"
  "dmc_cur_addr dmc_test_apu = 0xC000"
  "dmc_remaining dmc_test_apu = 1"
  "dmc_bits_remaining dmc_test_apu = 0"
  "dmc_buffer_full dmc_test_apu = False"
  "dmc_output dmc_test_apu = 0x20"
  "0 < dmc_inc dmc_test_apu"
  by (simp_all add: dmc_test_apu_def apu_write_def apu_init_def apu_connect_bus_def
        apu_recalc_phase_def apu_recalc_triangle_def apu_recalc_noise_def DMC_PERIODS_def Let_def)

text \<open>
  Claim C4 and the code. \<open>nes_init\<close> calls \<open>apu_connect_bus\<close>, declared in apu.h as
  "Connect bus for DMC memory fetches", but its body stores nothing and \<open>apu_init\<close> has
  set the pointer to NULL. So in the machine above, where the DMC is enabled with one byte
  remaining at 0xC000, IRQ enabled and the shift register empty, the DMC clock does not
  fetch: the address and the count stay, no IRQ flag is raised, and the shift register is
  filled with ones (0xFF, then shifted once). By the claim the byte at 0xC000 is fetched,
  the address becomes 0xC001, the count 0, and the DMC IRQ flag is raised.
\<close>

theorem dmc_clock_never_fetches:
  "apu dmc_test_machine = Some dmc_test_apu \<and>
   dmc_enabled dmc_test_apu \<and> dmc_irq_enable dmc_test_apu \<and>
   dmc_bits_remaining dmc_test_apu = 0 \<and> dmc_remaining dmc_test_apu = 1 \<and>
   dmc_cur_addr (the (apu (dmc_clock dmc_test_machine))) = 0xC000 \<and>
   dmc_remaining (the (apu (dmc_clock dmc_test_machine))) = 1 \<and>
   dmc_irq_flag (the (apu (dmc_clock dmc_test_machine))) = False \<and>
   dmc_shift_reg (the (apu (dmc_clock dmc_test_machine))) = 0x7F \<and>
   dmc_bits_remaining (the (apu (dmc_clock dmc_test_machine))) = 7"
proof -
  have c: "dmc_clock dmc_test_machine
             = dmc_test_machine\<lparr>apu := Some (dmc_output_bit
                 (dmc_test_apu\<lparr>dmc_shift_reg := 0xFF, dmc_bits_remaining := 8\<rparr>))\<rparr>"
    by (rule dmc_clock_unconnected [OF dmc_test_machine_apu])
       (simp_all add: dmc_test_apu_fields)
  show ?thesis
    by (simp add: c dmc_test_machine_apu dmc_test_apu_fields dmc_output_bit_def Let_def
          word_le_nat_alt)
qed

section \<open>A frame with rendering disabled\<close>

text \<open>With both rendering bits of the mask clear, a dot only handles the VBlank flags
  and advances the position.\<close>

definition advance_dot :: "PPU \<Rightarrow> PPU" where
  "advance_dot p =
     (if dot p + 1 \<ge> 341 then
        (if scanline p + 1 \<ge> 262
         then p\<lparr>frame_ready := True, odd_frame := \<not> odd_frame p, scanline := 0, dot := 0\<rparr>
         else p\<lparr>scanline := scanline p + 1, dot := 0\<rparr>)
      else p\<lparr>scanline := scanline p, dot := dot p + 1\<rparr>)"

definition vblank_flags :: "PPU \<Rightarrow> PPU" where
  "vblank_flags p =
     (if scanline p = 241 \<and> dot p = 1 then
        (if ppuctrl p AND 0x80 \<noteq> 0
         then p\<lparr>ppustatus := ppustatus p OR 0x80, nmi_pending := True\<rparr>
         else p\<lparr>ppustatus := ppustatus p OR 0x80\<rparr>)
      else if scanline p = 261 \<and> dot p = 1 then
        p\<lparr>ppustatus := (ppustatus p AND 0x7F) AND 0xBF\<rparr>
      else p)"

lemma ppu_step_rendering_off:
  "ppumask p AND 0x18 = 0 \<Longrightarrow> ppu_step k p = advance_dot (vblank_flags p)"
  apply (simp add: ppu_step_def Let_def PPU_DOTS_PER_LINE_def PPU_SCANLINES_def
        if_distrib [of ppumask] split del: if_split cong: if_cong)
  apply (simp add: advance_dot_def vblank_flags_def Let_def)
  done

text \<open>The position of the PPU in the frame as one number of dots, and the ranges of
  \<open>scanline\<close> and \<open>dot\<close>.\<close>

definition ppu_pos :: "PPU \<Rightarrow> int" where
  "ppu_pos p = scanline p * 341 + dot p"

definition ppu_pos_valid :: "PPU \<Rightarrow> bool" where
  "ppu_pos_valid p = (0 \<le> scanline p \<and> scanline p < 262 \<and> 0 \<le> dot p \<and> dot p < 341)"

lemma vblank_flags_fields [simp]:
  "scanline (vblank_flags p) = scanline p"
  "dot (vblank_flags p) = dot p"
  "odd_frame (vblank_flags p) = odd_frame p"
  "ppumask (vblank_flags p) = ppumask p"
  "ppuctrl (vblank_flags p) = ppuctrl p"
  "framebuffer (vblank_flags p) = framebuffer p"
  by (simp_all add: vblank_flags_def)

lemma advance_dot_fields [simp]:
  "ppumask (advance_dot p) = ppumask p"
  "ppuctrl (advance_dot p) = ppuctrl p"
  "framebuffer (advance_dot p) = framebuffer p"
  "nmi_pending (advance_dot p) = nmi_pending p"
  "ppustatus (advance_dot p) = ppustatus p"
  by (simp_all add: advance_dot_def)

lemma advance_dot_pos:
  assumes "ppu_pos_valid p"
  shows "ppu_pos_valid (advance_dot p) \<and> ppu_pos (advance_dot p) = (ppu_pos p + 1) mod 89342"
proof -
  have b: "0 \<le> scanline p" "scanline p < 262" "0 \<le> dot p" "dot p < 341"
    using assms by (simp_all add: ppu_pos_valid_def)
  consider (wrap) "dot p = 340" "scanline p = 261"
    | (line) "dot p = 340" "scanline p < 261"
    | (dot) "dot p < 340"
    using b by linarith
  then show ?thesis
  proof cases
    case wrap
    then show ?thesis
      by (simp add: advance_dot_def ppu_pos_valid_def ppu_pos_def)
  next
    case line
    then have "scanline p * 341 + dot p + 1 < 89342" "0 \<le> scanline p * 341 + dot p + 1"
      using b by linarith+
    then have "(scanline p * 341 + dot p + 1) mod 89342 = scanline p * 341 + dot p + 1"
      by simp
    then show ?thesis
      using line b by (simp add: advance_dot_def ppu_pos_valid_def ppu_pos_def)
  next
    case dot
    then have "scanline p * 341 + dot p + 1 < 89342" "0 \<le> scanline p * 341 + dot p + 1"
      using b by linarith+
    then have "(scanline p * 341 + dot p + 1) mod 89342 = scanline p * 341 + dot p + 1"
      by simp
    then show ?thesis
      using dot b by (simp add: advance_dot_def ppu_pos_valid_def ppu_pos_def)
  qed
qed

lemma ppu_step_off_fields:
  assumes "ppumask p AND 0x18 = 0"
  shows "ppumask (ppu_step k p) = ppumask p"
    and "ppuctrl (ppu_step k p) = ppuctrl p"
    and "framebuffer (ppu_step k p) = framebuffer p"
    and "nmi_pending (ppu_step k p)
           = (if scanline p = 241 \<and> dot p = 1 \<and> ppuctrl p AND 0x80 \<noteq> 0 then True
              else nmi_pending p)"
    and "ppustatus (ppu_step k p)
           = (if scanline p = 241 \<and> dot p = 1 then ppustatus p OR 0x80
              else if scanline p = 261 \<and> dot p = 1 then ppustatus p AND 0x3F
              else ppustatus p)"
  by (simp_all add: ppu_step_rendering_off [OF assms] vblank_flags_def and.assoc)

lemma ppu_step_off_pos:
  assumes "ppumask p AND 0x18 = 0" and "ppu_pos_valid p"
  shows "ppu_pos_valid (ppu_step k p)" and "ppu_pos (ppu_step k p) = (ppu_pos p + 1) mod 89342"
proof -
  have v: "ppu_pos_valid (vblank_flags p)" and e: "ppu_pos (vblank_flags p) = ppu_pos p"
    using assms(2) by (simp_all add: ppu_pos_valid_def ppu_pos_def)
  from advance_dot_pos [OF v] e
  show "ppu_pos_valid (ppu_step k p)" and "ppu_pos (ppu_step k p) = (ppu_pos p + 1) mod 89342"
    by (simp_all add: ppu_step_rendering_off [OF assms(1)])
qed

lemma ppu_steps_off:
  assumes "ppumask p AND 0x18 = 0" and "ppu_pos_valid p"
  shows "ppumask (ppu_steps k i p) = ppumask p \<and>
         ppuctrl (ppu_steps k i p) = ppuctrl p \<and>
         framebuffer (ppu_steps k i p) = framebuffer p \<and>
         ppu_pos_valid (ppu_steps k i p) \<and>
         ppu_pos (ppu_steps k i p) = (ppu_pos p + int i) mod 89342"
  using assms
proof (induction i arbitrary: p)
  case 0
  then show ?case by (simp add: ppu_pos_valid_def ppu_pos_def)
next
  case (Suc i)
  let ?q = "ppu_step k p"
  have m: "ppumask ?q AND 0x18 = 0"
    using Suc.prems(1) by (simp add: ppu_step_off_fields)
  have v: "ppu_pos_valid ?q" and e: "ppu_pos ?q = (ppu_pos p + 1) mod 89342"
    using ppu_step_off_pos [OF Suc.prems] by simp_all
  have "(ppu_pos ?q + int i) mod 89342 = (ppu_pos p + int (Suc i)) mod 89342"
    by (simp add: e mod_simps algebra_simps)
  with Suc.IH [OF m v] show ?case
    by (simp add: ppu_step_off_fields [OF Suc.prems(1)])
qed

lemma ppu_steps_off_nmi:
  assumes "ppumask p AND 0x18 = 0" and "ppuctrl p AND 0x80 = 0"
  shows "nmi_pending (ppu_steps k i p) = nmi_pending p"
  using assms
proof (induction i arbitrary: p)
  case 0
  then show ?case by simp
next
  case (Suc i)
  have "nmi_pending (ppu_steps k i (ppu_step k p)) = nmi_pending (ppu_step k p)"
    by (rule Suc.IH) (simp_all add: ppu_step_off_fields Suc.prems)
  then show ?case
    by (simp add: ppu_step_off_fields Suc.prems)
qed

lemma ppu_pos_vblank:
  assumes "ppu_pos_valid q"
  shows "(ppu_pos q = 82182) = (scanline q = 241 \<and> dot q = 1)"
proof
  assume e: "ppu_pos q = 82182"
  have b: "0 \<le> dot q" "dot q < 341" using assms by (simp_all add: ppu_pos_valid_def)
  have s: "scanline q * 341 + dot q = 82182" using e by (simp add: ppu_pos_def)
  have "\<not> scanline q \<le> 240" using s b by linarith
  moreover have "\<not> 242 \<le> scanline q" using s b by linarith
  ultimately have "scanline q = 241" by linarith
  then show "scanline q = 241 \<and> dot q = 1" using s by simp
next
  assume "scanline q = 241 \<and> dot q = 1"
  then show "ppu_pos q = 82182" by (simp add: ppu_pos_def)
qed

lemma unique_offset:
  fixes a c N :: int
  assumes "0 \<le> a" "a < N" "0 \<le> c" "c < N"
  shows "\<exists>!i :: nat. int i < N \<and> (a + int i) mod N = c"
proof (rule ex1I [of _ "nat ((c - a) mod N)"])
  have N: "0 < N" using assms by linarith
  have r: "0 \<le> (c - a) mod N" "(c - a) mod N < N" using N by simp_all
  have "(a + (c - a) mod N) mod N = (a + (c - a)) mod N" by (simp add: mod_simps)
  also have "\<dots> = c" using assms by simp
  finally show "int (nat ((c - a) mod N)) < N \<and> (a + int (nat ((c - a) mod N))) mod N = c"
    using r by simp
next
  fix i :: nat
  assume h: "int i < N \<and> (a + int i) mod N = c"
  have N: "0 < N" using assms by linarith
  have "(c - a) mod N = ((a + int i) mod N - a) mod N" using h by simp
  also have "\<dots> = int i mod N" by (simp add: mod_simps)
  also have "\<dots> = int i" using h by simp
  finally show "i = nat ((c - a) mod N)" by simp
qed

lemma ppu_steps_Suc_right: "ppu_steps k (Suc i) p = ppu_step k (ppu_steps k i p)"
  by (induction i arbitrary: p) simp_all

lemma vblank_tick_unique:
  assumes "ppumask p AND 0x18 = 0" and "ppu_pos_valid p"
  shows "\<exists>!i. i < 341 * 262 \<and> scanline (ppu_steps k i p) = 241 \<and> dot (ppu_steps k i p) = 1"
proof -
  have a: "0 \<le> ppu_pos p" "ppu_pos p < 89342"
    using assms(2) by (auto simp add: ppu_pos_valid_def ppu_pos_def)
  have eq: "(scanline (ppu_steps k i p) = 241 \<and> dot (ppu_steps k i p) = 1)
              = ((ppu_pos p + int i) mod 89342 = 82182)" for i
    using ppu_steps_off [OF assms, of k i] ppu_pos_vblank [of "ppu_steps k i p"] by simp
  have "\<exists>!i :: nat. int i < 89342 \<and> (ppu_pos p + int i) mod 89342 = 82182"
    by (rule unique_offset [OF a]) simp_all
  then show ?thesis by (simp add: eq)
qed

text \<open>
  Claim C9. Let the mask register be 0 and the position be a valid one, and let the PPU
  run the 341 * 262 dots of one frame (the mask stays 0: no dot writes it). Then the
  framebuffer after the frame is the one before it; exactly one of the dots is the tick at
  scanline 241, dot 1, and the status register changes at that tick, where the VBlank bit
  is set, and at the tick at scanline 261, dot 1, where bits 7 and 6 are cleared, and at no
  other; and if bit 7 of the control register is 0, \<open>nmi_pending\<close> is never changed.
\<close>

theorem frame_with_rendering_disabled:
  assumes "ppumask p = 0" and "ppu_pos_valid p"
  shows "framebuffer (ppu_steps k (341 * 262) p) = framebuffer p \<and>
         (\<exists>!i. i < 341 * 262 \<and> scanline (ppu_steps k i p) = 241 \<and> dot (ppu_steps k i p) = 1) \<and>
         (\<forall>i < 341 * 262.
            ppustatus (ppu_steps k (Suc i) p)
              = (if scanline (ppu_steps k i p) = 241 \<and> dot (ppu_steps k i p) = 1
                 then ppustatus (ppu_steps k i p) OR 0x80
                 else if scanline (ppu_steps k i p) = 261 \<and> dot (ppu_steps k i p) = 1
                 then ppustatus (ppu_steps k i p) AND 0x3F
                 else ppustatus (ppu_steps k i p))) \<and>
         (ppuctrl p AND 0x80 = 0 \<longrightarrow>
            (\<forall>i \<le> 341 * 262. nmi_pending (ppu_steps k i p) = nmi_pending p))"
proof -
  have m: "ppumask p AND 0x18 = 0" using assms(1) by simp
  have fb: "framebuffer (ppu_steps k (341 * 262) p) = framebuffer p"
    using ppu_steps_off [OF m assms(2)] by blast
  have st: "ppustatus (ppu_steps k (Suc i) p)
              = (if scanline (ppu_steps k i p) = 241 \<and> dot (ppu_steps k i p) = 1
                 then ppustatus (ppu_steps k i p) OR 0x80
                 else if scanline (ppu_steps k i p) = 261 \<and> dot (ppu_steps k i p) = 1
                 then ppustatus (ppu_steps k i p) AND 0x3F
                 else ppustatus (ppu_steps k i p))" for i
  proof -
    have "ppumask (ppu_steps k i p) AND 0x18 = 0"
      using ppu_steps_off [OF m assms(2), of k i] m by simp
    then show ?thesis
      by (simp only: ppu_steps_Suc_right ppu_step_off_fields)
  qed
  have nmi: "ppuctrl p AND 0x80 = 0 \<Longrightarrow> nmi_pending (ppu_steps k i p) = nmi_pending p" for i
    by (rule ppu_steps_off_nmi [OF m])
  show ?thesis
    using fb vblank_tick_unique [OF m assms(2)] st nmi by blast
qed

theorem frame_with_rendering_disabled_witness:
  "ppumask ppu_reset = 0 \<and> ppu_pos_valid ppu_reset \<and> ppuctrl ppu_reset AND 0x80 = 0 \<and>
   framebuffer (ppu_steps (NES.cart (nes_init False None)) (341 * 262) ppu_reset)
     = framebuffer ppu_reset \<and>
   nmi_pending (ppu_steps (NES.cart (nes_init False None)) (341 * 262) ppu_reset) = False"
proof -
  have a: "ppumask ppu_reset = 0" and b: "ppu_pos_valid ppu_reset"
    and c: "ppuctrl ppu_reset AND 0x80 = 0" and d: "nmi_pending ppu_reset = False"
    by (simp_all add: ppu_reset_def ppu_pos_valid_def)
  from frame_with_rendering_disabled [OF a b, of "NES.cart (nes_init False None)"] c d
  have "framebuffer (ppu_steps (NES.cart (nes_init False None)) (341 * 262) ppu_reset)
          = framebuffer ppu_reset"
    and "nmi_pending (ppu_steps (NES.cart (nes_init False None)) (341 * 262) ppu_reset) = False"
    by auto
  with a b c show ?thesis by blast
qed

section \<open>What the CPU leaves alone\<close>

text \<open>A function \<open>g\<close> of the machine is untouched by the CPU when no bus read, no bus
  write and no change of the CPU registers changes it.\<close>

definition bus_stable :: "(NES \<Rightarrow> 'a) \<Rightarrow> bool" where
  "bus_stable g =
     ((\<forall>n a. g (snd (bus_cpu_read n a)) = g n) \<and>
      (\<forall>n a d. g (bus_cpu_write n a d) = g n) \<and>
      (\<forall>n c. g (n\<lparr>cpu := c\<rparr>) = g n))"

lemma bus_stable_cpu: "bus_stable g \<Longrightarrow> g (n\<lparr>cpu := c\<rparr>) = g n"
  by (simp add: bus_stable_def)

lemma stable_cpu_read: "bus_stable g \<Longrightarrow> g (snd (cpu_read n a)) = g n"
  by (simp add: cpu_read_def bus_stable_def)

lemma stable_cpu_write: "bus_stable g \<Longrightarrow> g (cpu_write n a d) = g n"
  by (simp add: cpu_write_def bus_stable_def)

lemma stable_push:
  assumes s: "bus_stable g" shows "g (push n b) = g n"
  by (simp add: push_def Let_def bus_stable_cpu [OF s] stable_cpu_write [OF s])

lemma stable_pull:
  assumes s: "bus_stable g" shows "g (snd (pull n)) = g n"
  by (simp add: pull_def Let_def bus_stable_cpu [OF s] stable_cpu_read [OF s])

lemma stable_fetch8:
  assumes s: "bus_stable g" shows "g (snd (fetch8 n)) = g n"
  by (simp add: fetch8_def Let_def bus_stable_cpu [OF s] stable_cpu_read [OF s])

lemma stable_fetch16:
  assumes s: "bus_stable g" shows "g (snd (fetch16 n)) = g n"
  by (simp add: fetch16_def Let_def case_prod_beta stable_fetch8 [OF s])

text \<open>An addressing helper that leaves \<open>g\<close> alone.\<close>

definition mode_stable :: "(NES \<Rightarrow> 'a) \<Rightarrow> (NES \<Rightarrow> Addr \<times> NES) \<Rightarrow> bool" where
  "mode_stable g m = (\<forall>n. g (snd (m n)) = g n)"

lemma stable_modes:
  assumes s: "bus_stable g"
  shows "mode_stable g addr_imm" "mode_stable g addr_zp0" "mode_stable g addr_zpx"
    "mode_stable g addr_zpy" "mode_stable g addr_abs" "mode_stable g addr_abx"
    "mode_stable g addr_aby" "mode_stable g addr_ind" "mode_stable g addr_izx"
    "mode_stable g addr_izy"
  by (simp_all add: mode_stable_def addr_imm_def addr_zp0_def addr_zpx_def addr_zpy_def
        addr_abs_def addr_abx_def addr_aby_def addr_ind_def addr_izx_def addr_izy_def
        Let_def case_prod_beta bus_stable_cpu [OF s] stable_cpu_read [OF s]
        stable_fetch8 [OF s] stable_fetch16 [OF s])

lemma stable_rel_addr:
  assumes s: "bus_stable g" shows "g (snd (rel_addr n)) = g n"
  by (simp add: rel_addr_def Let_def case_prod_beta stable_fetch8 [OF s])

lemma stable_interrupt:
  assumes s: "bus_stable g" shows "g (interrupt vec n) = g n"
  by (simp add: interrupt_def Let_def case_prod_beta bus_stable_cpu [OF s]
        stable_cpu_read [OF s] stable_push [OF s])

lemma stable_ops_plain:
  assumes s: "bus_stable g"
  shows "g (snd (op_brk n)) = g n"
    and "g (snd (op_implied u n)) = g n"
    and "g (snd (op_jsr n)) = g n"
    and "g (snd (op_rts n)) = g n"
    and "g (snd (op_rti n)) = g n"
    and "g (snd (op_pla n)) = g n"
    and "g (snd (op_plp n)) = g n"
    and "g (snd (op_pha n)) = g n"
    and "g (snd (op_php n)) = g n"
    and "g (snd (op_branch cond n)) = g n"
  by (simp_all add: op_brk_def op_implied_def op_jsr_def op_rts_def op_rti_def
        op_pla_def op_plp_def op_pha_def op_php_def op_branch_def
        Let_def case_prod_beta bus_stable_cpu [OF s] stable_cpu_read [OF s]
        stable_push [OF s] stable_pull [OF s] stable_fetch16 [OF s] stable_rel_addr [OF s])

lemma stable_ops_mode:
  assumes s: "bus_stable g" and m: "mode_stable g m"
  shows "g (snd (op_logic f m cyc pen n)) = g n"
    and "g (snd (op_arith h m cyc pen n)) = g n"
    and "g (snd (op_compare r m cyc pen n)) = g n"
    and "g (snd (op_incdec d m cyc n)) = g n"
    and "g (snd (op_shift sh m cyc n)) = g n"
    and "g (snd (op_bit m cyc n)) = g n"
    and "g (snd (op_jmp m cyc n)) = g n"
    and "g (snd (op_load st m cyc pen n)) = g n"
    and "g (snd (op_store r m cyc n)) = g n"
  by (simp_all add: op_logic_def op_arith_def op_compare_def op_incdec_def
        op_shift_def op_bit_def op_jmp_def op_load_def op_store_def
        Let_def case_prod_beta bus_stable_cpu [OF s] stable_cpu_read [OF s]
        stable_cpu_write [OF s] m [unfolded mode_stable_def, rule_format])

lemma stable_optable:
  assumes s: "bus_stable g"
  shows "list_all (\<lambda>(op, f). \<forall>n. g (snd (f n)) = g n) optable"
  unfolding optable_def
  by (simp add: stable_ops_plain [OF s] stable_ops_mode [OF s] stable_modes [OF s])

lemma stable_cpu_step:
  assumes s: "bus_stable g" shows "g (snd (cpu_step n)) = g n"
proof -
  have row: "g (snd (f m)) = g m" if "map_of optable op = Some f" for op f m
  proof -
    from that have "(op, f) \<in> set optable" by (rule map_of_SomeD)
    with stable_optable [OF s] show ?thesis
      by (auto simp add: list_all_iff)
  qed
  show ?thesis
  proof (cases "nmi_line (cpu n)")
    case True
    then show ?thesis
      by (simp add: cpu_step_def cpu_nmi_def stable_interrupt [OF s] bus_stable_cpu [OF s])
  next
    case False
    note nf = False
    show ?thesis
    proof (cases "irq_line (cpu n) \<and> P (cpu n) AND FLAG_I = 0")
      case True
      then show ?thesis
        using nf
        by (simp add: cpu_step_def cpu_irq_def stable_interrupt [OF s] bus_stable_cpu [OF s])
    next
      case False
      then have e: "cpu_step n =
          (let (op, n1) = fetch8 n;
               (cyc, n2) = (case map_of optable op of Some f \<Rightarrow> f n1 | None \<Rightarrow> (2, n1))
           in (cyc, n2\<lparr>cpu := (cpu n2)\<lparr>cycles := cycles (cpu n2) + of_int cyc\<rparr>\<rparr>))"
        using nf by (auto simp add: cpu_step_def)
      show ?thesis
        by (simp add: e Let_def case_prod_beta bus_stable_cpu [OF s] row
              stable_fetch8 [OF s] split: option.splits)
    qed
  qed
qed

section \<open>The CPU registers across bus accesses\<close>

lemma ppu_irrelevant_for_cpu [simp]:
  "cpu (n\<lparr>ppu := p\<rparr>) = cpu n" "cpu (n\<lparr>apu := a\<rparr>) = cpu n"
  by simp_all

lemma bus_cpu_read_cpu [simp]: "cpu (snd (bus_cpu_read n a)) = cpu n"
  by (simp add: bus_cpu_read_def Let_def case_prod_beta split: option.splits)

lemma oam_dma_step_cpu [simp]: "cpu (oam_dma_step base start i n) = cpu n"
  by (simp add: oam_dma_step_def Let_def case_prod_beta)

lemma oam_dma_fold_cpu [simp]: "cpu (fold (oam_dma_step base start) xs n) = cpu n"
  by (induction xs arbitrary: n) simp_all

lemma bus_cpu_write_cpu [simp]: "cpu (bus_cpu_write n a d) = cpu n"
  by (simp add: bus_cpu_write_def Let_def case_prod_beta split: option.splits)

lemma cpu_read_cpu [simp]: "cpu (snd (cpu_read n a)) = cpu n"
  by (simp add: cpu_read_def)

lemma cpu_write_cpu [simp]: "cpu (cpu_write n a d) = cpu n"
  by (simp add: cpu_write_def)

lemma push_cpu [simp]: "cpu (push n b) = (cpu n)\<lparr>S := S (cpu n) - 1\<rparr>"
  by (simp add: push_def Let_def)

lemma pull_cpu [simp]: "cpu (snd (pull n)) = (cpu n)\<lparr>S := S (cpu n) + 1\<rparr>"
  by (simp add: pull_def Let_def)

lemma fetch8_cpu [simp]: "cpu (snd (fetch8 n)) = (cpu n)\<lparr>PC := PC (cpu n) + 1\<rparr>"
  by (simp add: fetch8_def Let_def)

lemma fetch16_cpu [simp]: "cpu (snd (fetch16 n)) = (cpu n)\<lparr>PC := PC (cpu n) + 2\<rparr>"
  by (simp add: fetch16_def Let_def case_prod_beta)

text \<open>An addressing helper changes no register but the program counter.\<close>

definition mode_regs :: "(NES \<Rightarrow> Addr \<times> NES) \<Rightarrow> bool" where
  "mode_regs m = (\<forall>n. \<exists>pc. cpu (snd (m n)) = (cpu n)\<lparr>PC := pc\<rparr>)"

lemma mode_regs_all:
  "mode_regs addr_imm" "mode_regs addr_zp0" "mode_regs addr_zpx"
  "mode_regs addr_zpy" "mode_regs addr_abs" "mode_regs addr_abx"
  "mode_regs addr_aby" "mode_regs addr_ind" "mode_regs addr_izx"
  "mode_regs addr_izy"
  by (simp_all add: mode_regs_def addr_imm_def addr_zp0_def addr_zpx_def addr_zpy_def
        addr_abs_def addr_abx_def addr_aby_def addr_ind_def addr_izx_def addr_izy_def
        Let_def case_prod_beta) blast+

lemma mode_regs_P:
  assumes "mode_regs m" shows "P (cpu (snd (m n))) = P (cpu n)"
proof -
  from assms obtain pc where "cpu (snd (m n)) = (cpu n)\<lparr>PC := pc\<rparr>"
    unfolding mode_regs_def by blast
  then show ?thesis by simp
qed

section \<open>The B flag\<close>

lemma B_clear_iff: "(p AND FLAG_B = 0) = (\<not> bit p 4)"
proof -
  have e: "FLAG_B = 2 ^ 4" by (simp add: FLAG_B_def)
  show ?thesis unfolding e by (rule and_exp_eq_0_iff_not_bit)
qed

lemma flag_bit4:
  "\<not> bit FLAG_C 4" "\<not> bit FLAG_Z 4" "\<not> bit FLAG_I 4" "\<not> bit FLAG_D 4"
  "bit FLAG_B 4" "\<not> bit FLAG_U 4" "\<not> bit FLAG_V 4" "\<not> bit FLAG_N 4"
  unfolding FLAG_C_def FLAG_Z_def FLAG_I_def FLAG_D_def FLAG_B_def FLAG_U_def FLAG_V_def
    FLAG_N_def
  by code_simp+

lemma set_bit_u8_bit4: "\<not> bit m 4 \<Longrightarrow> bit (set_bit_u8 p m on) 4 = bit p 4"
  by (simp add: set_bit_u8_def bit_simps)

lemma set_zn_bit4 [simp]: "bit (P (set_zn c b)) 4 = bit (P c) 4"
  by (simp add: set_zn_def Let_def set_bit_u8_bit4 flag_bit4)

lemma set_zn_regs [simp]:
  "A (set_zn c b) = A c" "X (set_zn c b) = X c" "Y (set_zn c b) = Y c"
  "S (set_zn c b) = S c" "PC (set_zn c b) = PC c"
  by (simp_all add: set_zn_def Let_def)

lemma adc_bit4 [simp]: "bit (P (snd (adc c a b))) 4 = bit (P c) 4"
  by (simp add: adc_def Let_def set_bit_u8_bit4 flag_bit4)

lemma sbc_bit4 [simp]: "bit (P (snd (sbc c a b))) 4 = bit (P c) 4"
  by (simp add: sbc_def Let_def set_bit_u8_bit4 flag_bit4)

lemma shift_acc_bit4 [simp]: "bit (P (shift_acc sh c)) 4 = bit (P c) 4"
  by (simp add: shift_acc_def Let_def case_prod_beta set_bit_u8_bit4 flag_bit4)

text \<open>An instruction body that does not set the B flag in the status register.\<close>

definition keeps_B_clear :: "(NES \<Rightarrow> int \<times> NES) \<Rightarrow> bool" where
  "keeps_B_clear f = (\<forall>n. \<not> bit (P (cpu n)) 4 \<longrightarrow> \<not> bit (P (cpu (snd (f n)))) 4)"

definition regs_keep_B_clear :: "(CPU \<Rightarrow> CPU) \<Rightarrow> bool" where
  "regs_keep_B_clear u = (\<forall>c. \<not> bit (P c) 4 \<longrightarrow> \<not> bit (P (u c)) 4)"

lemma interrupt_bit4: "\<not> bit (P (cpu n)) 4 \<Longrightarrow> \<not> bit (P (cpu (interrupt vec n))) 4"
  by (simp add: interrupt_def Let_def case_prod_beta bit_simps flag_bit4)

lemma keeps_B_plain:
  "keeps_B_clear op_brk" "keeps_B_clear op_jsr" "keeps_B_clear op_rts" "keeps_B_clear op_rti"
  "keeps_B_clear op_pla" "keeps_B_clear op_plp" "keeps_B_clear op_pha" "keeps_B_clear op_php"
  "keeps_B_clear (op_branch cond)"
  by (simp_all add: keeps_B_clear_def op_brk_def op_jsr_def op_rts_def op_rti_def
        op_pla_def op_plp_def op_pha_def op_php_def op_branch_def rel_addr_def
        Let_def case_prod_beta bit_simps flag_bit4)

lemma keeps_B_implied: "regs_keep_B_clear u \<Longrightarrow> keeps_B_clear (op_implied u)"
  by (simp add: keeps_B_clear_def regs_keep_B_clear_def op_implied_def)

lemma keeps_B_mode:
  assumes m: "mode_regs m"
  shows "keeps_B_clear (op_logic f m cyc pen)"
    and "keeps_B_clear (op_arith adc m cyc pen)"
    and "keeps_B_clear (op_arith sbc m cyc pen)"
    and "keeps_B_clear (op_compare r m cyc pen)"
    and "keeps_B_clear (op_incdec d m cyc)"
    and "keeps_B_clear (op_shift sh m cyc)"
    and "keeps_B_clear (op_bit m cyc)"
    and "keeps_B_clear (op_jmp m cyc)"
    and "keeps_B_clear (op_store r m cyc)"
  by (simp_all add: keeps_B_clear_def op_logic_def op_arith_def op_compare_def op_incdec_def
        op_shift_def op_bit_def op_jmp_def op_store_def
        Let_def case_prod_beta set_bit_u8_bit4 flag_bit4 mode_regs_P [OF m])

lemma keeps_B_load:
  assumes m: "mode_regs m" and st: "\<And>b c. P (st b c) = P c"
  shows "keeps_B_clear (op_load st m cyc pen)"
  by (simp add: keeps_B_clear_def op_load_def Let_def case_prod_beta st mode_regs_P [OF m])

lemma keeps_B_optable: "list_all (\<lambda>(op, f). keeps_B_clear f) optable"
  unfolding optable_def
  by (simp add: keeps_B_plain keeps_B_implied keeps_B_mode keeps_B_load mode_regs_all
        regs_keep_B_clear_def Let_def bit_simps flag_bit4)

lemma keeps_B_cpu_step: "keeps_B_clear cpu_step"
proof -
  have row: "keeps_B_clear f" if "map_of optable op = Some f" for op f
  proof -
    from that have "(op, f) \<in> set optable" by (rule map_of_SomeD)
    with keeps_B_optable show ?thesis by (auto simp add: list_all_iff)
  qed
  show ?thesis
    unfolding keeps_B_clear_def
  proof (intro allI impI)
    fix n :: NES
    assume b: "\<not> bit (P (cpu n)) 4"
    show "\<not> bit (P (cpu (snd (cpu_step n)))) 4"
    proof (cases "nmi_line (cpu n)")
      case True
      then show ?thesis
        using b by (simp add: cpu_step_def cpu_nmi_def interrupt_bit4)
    next
      case False
      note nf = False
      show ?thesis
      proof (cases "irq_line (cpu n) \<and> P (cpu n) AND FLAG_I = 0")
        case True
        then show ?thesis
          using nf b by (simp add: cpu_step_def cpu_irq_def interrupt_bit4)
      next
        case False
        then have e: "cpu_step n =
            (let (op, n1) = fetch8 n;
                 (cyc, n2) = (case map_of optable op of Some f \<Rightarrow> f n1 | None \<Rightarrow> (2, n1))
             in (cyc, n2\<lparr>cpu := (cpu n2)\<lparr>cycles := cycles (cpu n2) + of_int cyc\<rparr>\<rparr>))"
          using nf by (auto simp add: cpu_step_def)
        have f: "\<not> bit (P (cpu (snd (fetch8 n)))) 4" using b by simp
        show ?thesis
        proof (cases "map_of optable (fst (fetch8 n))")
          case None
          then show ?thesis using f by (simp add: e Let_def case_prod_beta)
        next
          case (Some g)
          from row [OF Some] f have "\<not> bit (P (cpu (snd (g (snd (fetch8 n)))))) 4"
            by (simp add: keeps_B_clear_def)
          then show ?thesis using Some by (simp add: e Let_def case_prod_beta)
        qed
      qed
    qed
  qed
qed

section \<open>What the APU tick leaves alone\<close>

lemma dmc_clock_keeps:
  assumes r: "\<And>n a. g (snd (bus_cpu_read n a)) = g n" and u: "\<And>n a. g (n\<lparr>apu := a\<rparr>) = g n"
  shows "g (dmc_clock n) = g n"
  by (simp add: dmc_clock_def dmc_fetch_def Let_def case_prod_beta r u)

lemma dmc_loop_keeps:
  assumes r: "\<And>n a. g (snd (bus_cpu_read n a)) = g n" and u: "\<And>n a. g (n\<lparr>apu := a\<rparr>) = g n"
  shows "g (dmc_loop n) = g n"
proof (induction n rule: dmc_loop.induct)
  case (1 n)
  show ?case
  proof (cases "1 \<le> dmc_phase (the (apu n))")
    case True
    let ?n1 = "n\<lparr>apu := Some ((the (apu n))\<lparr>dmc_phase := dmc_phase (the (apu n)) - 1\<rparr>)\<rparr>"
    have "g (dmc_loop (dmc_clock ?n1)) = g (dmc_clock ?n1)"
      using "1.IH" [OF refl True] .
    also have "\<dots> = g n" by (simp add: dmc_clock_keeps [of g, OF r u] u)
    finally show ?thesis
      using True by (subst dmc_loop.simps) (simp add: Let_def)
  next
    case False
    then show ?thesis by (subst dmc_loop.simps) (simp add: Let_def)
  qed
qed

lemma apu_tick_keeps:
  assumes r: "\<And>n a. g (snd (bus_cpu_read n a)) = g n" and u: "\<And>n a. g (n\<lparr>apu := a\<rparr>) = g n"
  shows "g (apu_tick_cpu_cycles n c) = g n"
  by (simp add: apu_tick_cpu_cycles_def Let_def dmc_loop_keeps [of g, OF r u] u
        split: option.splits)

lemma apu_tick_cpu [simp]: "cpu (apu_tick_cpu_cycles n c) = cpu n"
  by (rule apu_tick_keeps) simp_all

section \<open>The stack\<close>

lemma bit_256_int: "bit (256 :: int) n = (n = 8)"
proof -
  have e: "(256 :: int) = 2 ^ 8" by simp
  show ?thesis unfolding e by (simp only: bit_exp_iff) auto
qed

lemma stack_addr_eq: "(0x0100 OR ucast (s :: 8 word) :: 16 word) = 0x0100 + ucast s"
proof -
  have "(0x0100 :: 16 word) + ucast s = 0x0100 OR ucast s"
    by (rule disjunctive_add_eq_or, rule bit_eqI)
       (auto simp add: bit_simps bit_256_int dest: bit_imp_le_length)
  then show ?thesis by simp
qed

lemma unat_ucast_8_16: "unat (ucast (s :: 8 word) :: 16 word) = unat s"
proof -
  have "unat s < 2 ^ LENGTH(8)" by (rule unsigned_less)
  then show ?thesis by (simp add: unsigned_ucast_eq take_bit_nat_eq_self)
qed

lemma stack_addr_unat: "unat (0x0100 OR ucast (s :: 8 word) :: 16 word) = 256 + unat s"
proof -
  have "unat s < 2 ^ LENGTH(8)" by (rule unsigned_less)
  then show ?thesis
    by (simp add: stack_addr_eq unat_word_ariths unat_ucast_8_16)
qed

lemma stack_addr_le: "(0x0100 OR ucast (s :: 8 word) :: 16 word) \<le> 0x1FFF"
proof -
  have "unat s < 2 ^ LENGTH(8)" by (rule unsigned_less)
  then show ?thesis by (simp add: word_le_nat_alt stack_addr_unat)
qed

lemma and_7ff_unat:
  assumes "unat (x :: 16 word) < 2048" shows "x AND 0x07FF = x"
proof -
  have m: "(0x07FF :: 16 word) = mask 11" by (simp add: mask_eq_exp_minus_1)
  have "x < 2 ^ 11" using assms by (simp add: word_less_nat_alt)
  then show ?thesis unfolding m by (rule less_mask_eq)
qed

lemma stack_addr_index:
  "unat ((0x0100 OR ucast (s :: 8 word) :: 16 word) AND 0x07FF) = 256 + unat s"
proof -
  have "unat s < 2 ^ LENGTH(8)" by (rule unsigned_less)
  then have "unat (0x0100 OR ucast s :: 16 word) < 2048" by (simp add: stack_addr_unat)
  then show ?thesis by (simp add: and_7ff_unat stack_addr_unat)
qed

text \<open>A machine whose CPU has its bus pointer and whose bus has its back pointer, as
  \<open>nes_init\<close> builds it.\<close>

definition wired :: "NES \<Rightarrow> bool" where
  "wired n = (CPU.bus (cpu n) \<and> nes (NES.bus n))"

lemma bus_cpu_read_bus [simp]: "NES.bus (snd (bus_cpu_read n a)) = NES.bus n"
  by (simp add: bus_cpu_read_def Let_def case_prod_beta split: option.splits)

lemma cpu_read_bus [simp]: "NES.bus (snd (cpu_read n a)) = NES.bus n"
  by (simp add: cpu_read_def)

lemma push_wired:
  assumes "wired n"
  shows "ram (NES.bus (push n b)) = (ram (NES.bus n))(256 + unat (S (cpu n)) := b)"
    and "wired (push n b)"
  using assms
  by (simp_all add: wired_def push_def cpu_write_def bus_cpu_write_def Let_def
        stack_addr_le stack_addr_index)

lemma pull_wired:
  assumes "wired n"
  shows "fst (pull n) = ram (NES.bus n) (256 + unat (S (cpu n) + 1))"
    and "NES.bus (snd (pull n)) = NES.bus n"
    and "wired (snd (pull n))"
  using assms
  by (simp_all add: wired_def pull_def cpu_read_def bus_cpu_read_def Let_def
        stack_addr_le stack_addr_index)

lemma three_pushes:
  assumes "wired n"
  shows "ram (NES.bus (push (push (push n b1) b2) b3)) (256 + unat (S (cpu n) - 2)) = b3"
proof -
  have w1: "wired (push n b1)" by (rule push_wired [OF assms])
  have w2: "wired (push (push n b1) b2)" by (rule push_wired [OF w1])
  have "S (cpu (push (push n b1) b2)) = S (cpu n) - 2" by simp
  then show ?thesis by (simp add: push_wired(1) [OF w2])
qed

lemma php_pushes:
  assumes "wired n"
  shows "ram (NES.bus (snd (op_php n))) (256 + unat (S (cpu n))) = P (cpu n) OR FLAG_B OR FLAG_U"
    and "P (cpu (snd (op_php n))) = P (cpu n)"
  by (simp_all add: op_php_def push_wired(1) [OF assms])

lemma brk_pushes:
  assumes "wired n"
  shows "ram (NES.bus (snd (op_brk n))) (256 + unat (S (cpu n) - 2))
           = P (cpu n) OR FLAG_B OR FLAG_U"
    and "P (cpu (snd (op_brk n))) = P (cpu n) OR FLAG_I"
proof -
  let ?n1 = "n\<lparr>cpu := (cpu n)\<lparr>PC := PC (cpu n) + 1\<rparr>\<rparr>"
  have w: "wired ?n1" using assms by (simp add: wired_def)
  have "ram (NES.bus (push (push (push ?n1 b1) b2) b3)) (256 + unat (S (cpu ?n1) - 2)) = b3"
    for b1 b2 b3
    by (rule three_pushes [OF w])
  then show "ram (NES.bus (snd (op_brk n))) (256 + unat (S (cpu n) - 2))
               = P (cpu n) OR FLAG_B OR FLAG_U"
    by (simp add: op_brk_def Let_def case_prod_beta)
  show "P (cpu (snd (op_brk n))) = P (cpu n) OR FLAG_I"
    by (simp add: op_brk_def Let_def case_prod_beta)
qed

lemma interrupt_pushes:
  assumes "wired n"
  shows "ram (NES.bus (interrupt vec n)) (256 + unat (S (cpu n) - 2))
           = (P (cpu n) AND NOT FLAG_B) OR FLAG_U"
    and "P (cpu (interrupt vec n)) = P (cpu n) OR FLAG_I"
proof -
  have "ram (NES.bus (push (push (push n b1) b2) b3)) (256 + unat (S (cpu n) - 2)) = b3"
    for b1 b2 b3
    by (rule three_pushes [OF assms])
  then show "ram (NES.bus (interrupt vec n)) (256 + unat (S (cpu n) - 2))
               = (P (cpu n) AND NOT FLAG_B) OR FLAG_U"
    by (simp add: interrupt_def Let_def case_prod_beta)
  show "P (cpu (interrupt vec n)) = P (cpu n) OR FLAG_I"
    by (simp add: interrupt_def Let_def case_prod_beta)
qed

lemma plp_loads:
  assumes "wired n"
  shows "P (cpu (snd (op_plp n)))
           = (ram (NES.bus n) (256 + unat (S (cpu n) + 1)) OR FLAG_U) AND NOT FLAG_B"
  by (simp add: op_plp_def Let_def case_prod_beta pull_wired(1) [OF assms])

lemma rti_loads:
  assumes "wired n"
  shows "P (cpu (snd (op_rti n)))
           = (ram (NES.bus n) (256 + unat (S (cpu n) + 1)) OR FLAG_U) AND NOT FLAG_B"
  by (simp add: op_rti_def Let_def case_prod_beta pull_wired(1) [OF assms])

lemma optable_status_cases:
  "map_of optable 0x08 = Some op_php" "map_of optable 0x00 = Some op_brk"
  "map_of optable 0x28 = Some op_plp" "map_of optable 0x40 = Some op_rti"
  by (simp_all add: optable_def)

section \<open>Sequences of operations on the machine\<close>

text \<open>What can be done to the CPU of a machine from outside: the functions of cpu.h, the
  raising of the two interrupt lines (which the shell does when the PPU or the APU
  signals), a run of the shell's loop, and loading a cartridge.\<close>

datatype machine_op =
    CpuStep | CpuReset | CpuIrq | CpuNmi | RaiseNmiLine | RaiseIrqLine
  | RunCycles int | LoadRom Cartridge

fun apply_op :: "machine_op \<Rightarrow> NES \<Rightarrow> NES" where
  "apply_op CpuStep n = snd (cpu_step n)"
| "apply_op CpuReset n = cpu_reset n"
| "apply_op CpuIrq n = cpu_irq n"
| "apply_op CpuNmi n = cpu_nmi n"
| "apply_op RaiseNmiLine n = n\<lparr>cpu := (cpu n)\<lparr>nmi_line := True\<rparr>\<rparr>"
| "apply_op RaiseIrqLine n = n\<lparr>cpu := (cpu n)\<lparr>irq_line := True\<rparr>\<rparr>"
| "apply_op (RunCycles r) n = nes_run_cycles n r"
| "apply_op (LoadRom k) n = nes_load_rom n k"

lemma run_iteration_bit4:
  assumes "\<not> bit (P (cpu n)) 4"
  shows "\<not> bit (P (cpu (snd (nes_run_iteration n)))) 4"
proof -
  have "\<not> bit (P (cpu (snd (cpu_step n)))) 4"
    using keeps_B_cpu_step assms by (simp add: keeps_B_clear_def)
  then show ?thesis
    by (simp add: nes_run_iteration_def Let_def case_prod_beta split: option.splits)
qed

lemma run_cycles_bit4:
  "\<not> bit (P (cpu n)) 4 \<Longrightarrow> \<not> bit (P (cpu (nes_run_cycles n r))) 4"
proof (induction n r rule: nes_run_cycles.induct)
  case (1 n remaining)
  show ?case
  proof (cases "remaining > 0")
    case True
    have "\<not> bit (P (cpu (snd (nes_run_iteration n)))) 4"
      by (rule run_iteration_bit4 [OF "1.prems"])
    with "1.IH" [OF True refl, of "fst (nes_run_iteration n)" "snd (nes_run_iteration n)"]
    show ?thesis
      using True by (subst nes_run_cycles.simps) (simp add: case_prod_beta)
  next
    case False
    then show ?thesis using "1.prems" by (subst nes_run_cycles.simps) simp
  qed
qed

lemma apply_op_bit4:
  "\<not> bit (P (cpu n)) 4 \<Longrightarrow> \<not> bit (P (cpu (apply_op op n))) 4"
proof (cases op)
  case CpuStep
  assume "\<not> bit (P (cpu n)) 4"
  then show ?thesis using keeps_B_cpu_step CpuStep by (simp add: keeps_B_clear_def)
next
  case CpuReset
  assume "\<not> bit (P (cpu n)) 4"
  then show ?thesis using CpuReset
    by (simp add: cpu_reset_def Let_def case_prod_beta bit_simps flag_bit4)
next
  case CpuIrq
  assume "\<not> bit (P (cpu n)) 4"
  then show ?thesis using CpuIrq by (simp add: cpu_irq_def interrupt_bit4)
next
  case CpuNmi
  assume "\<not> bit (P (cpu n)) 4"
  then show ?thesis using CpuNmi by (simp add: cpu_nmi_def interrupt_bit4)
next
  case (RunCycles r)
  assume "\<not> bit (P (cpu n)) 4"
  then show ?thesis using RunCycles by (simp add: run_cycles_bit4)
qed (simp_all add: nes_load_rom_def)

lemma fold_apply_op_bit4:
  "\<not> bit (P (cpu n)) 4 \<Longrightarrow> \<not> bit (P (cpu (fold apply_op ops n))) 4"
  by (induction ops arbitrary: n) (simp_all add: apply_op_bit4)

lemma nes_init_bit4: "\<not> bit (P (cpu (nes_init e dev))) 4"
  by (simp add: nes_init_def cpu_connect_bus_def cpu_power_on_def bit_simps flag_bit4)

text \<open>
  Claim C7, as the code has it. From power-on and through every sequence of operations,
  bit 0x10 of the status register \<open>P\<close> is 0. The opcodes 0x08, 0x00, 0x28 and 0x40 are
  PHP, BRK, PLP and RTI. On a machine with its bus, PHP writes \<open>P\<close> with B and U set to
  the stack and leaves \<open>P\<close> as it is; BRK writes \<open>P\<close> with B and U set below the two
  bytes of the return address and changes \<open>P\<close> by setting I, and nothing else; PLP and
  RTI load \<open>P\<close> from the byte on the stack with U set and B cleared; the servicing of
  an interrupt (\<open>cpu_nmi\<close>, and \<open>cpu_irq\<close> when I is clear) writes \<open>P\<close> with B cleared
  and U set and changes \<open>P\<close> by setting I.
\<close>

theorem b_flag_never_stored:
  assumes "wired n"
  shows "P (cpu (fold apply_op ops (nes_init e dev))) AND FLAG_B = 0 \<and>
         map_of optable 0x08 = Some op_php \<and> map_of optable 0x00 = Some op_brk \<and>
         map_of optable 0x28 = Some op_plp \<and> map_of optable 0x40 = Some op_rti \<and>
         ram (NES.bus (snd (op_php n))) (256 + unat (S (cpu n))) = P (cpu n) OR FLAG_B OR FLAG_U \<and>
         P (cpu (snd (op_php n))) = P (cpu n) \<and>
         ram (NES.bus (snd (op_brk n))) (256 + unat (S (cpu n) - 2))
           = P (cpu n) OR FLAG_B OR FLAG_U \<and>
         P (cpu (snd (op_brk n))) = P (cpu n) OR FLAG_I \<and>
         P (cpu (snd (op_plp n)))
           = (ram (NES.bus n) (256 + unat (S (cpu n) + 1)) OR FLAG_U) AND NOT FLAG_B \<and>
         P (cpu (snd (op_rti n)))
           = (ram (NES.bus n) (256 + unat (S (cpu n) + 1)) OR FLAG_U) AND NOT FLAG_B \<and>
         ram (NES.bus (cpu_nmi n)) (256 + unat (S (cpu n) - 2))
           = (P (cpu n) AND NOT FLAG_B) OR FLAG_U \<and>
         P (cpu (cpu_nmi n)) = P (cpu n) OR FLAG_I \<and>
         ram (NES.bus (cpu_irq n)) (256 + unat (S (cpu n) - 2))
           = (if P (cpu n) AND FLAG_I = 0 then (P (cpu n) AND NOT FLAG_B) OR FLAG_U
              else ram (NES.bus n) (256 + unat (S (cpu n) - 2))) \<and>
         P (cpu (cpu_irq n)) = P (cpu n) OR FLAG_I"
proof -
  have inv: "P (cpu (fold apply_op ops (nes_init e dev))) AND FLAG_B = 0"
    unfolding B_clear_iff by (rule fold_apply_op_bit4 [OF nes_init_bit4])
  have irq: "ram (NES.bus (cpu_irq n)) (256 + unat (S (cpu n) - 2))
           = (if P (cpu n) AND FLAG_I = 0 then (P (cpu n) AND NOT FLAG_B) OR FLAG_U
              else ram (NES.bus n) (256 + unat (S (cpu n) - 2)))"
    by (simp add: cpu_irq_def interrupt_pushes [OF assms])
  have irq_P: "P (cpu (cpu_irq n)) = P (cpu n) OR FLAG_I"
  proof (cases "P (cpu n) AND FLAG_I = 0")
    case True
    then show ?thesis by (simp add: cpu_irq_def interrupt_pushes [OF assms])
  next
    case False
    have "P (cpu n) OR FLAG_I = P (cpu n)"
    proof (rule bit_word_eqI)
      fix k assume "k < LENGTH(8)"
      have i: "bit FLAG_I k = (k = 2)" for k
      proof -
        have e: "FLAG_I = 2 ^ 2" by (simp add: FLAG_I_def)
        show ?thesis unfolding e by (simp only: bit_exp_iff) auto
      qed
      have "bit (P (cpu n)) 2"
        using False and_exp_eq_0_iff_not_bit [of "P (cpu n)" 2] by (simp add: FLAG_I_def)
      then show "bit (P (cpu n) OR FLAG_I) k = bit (P (cpu n)) k"
        by (auto simp add: bit_or_iff i)
    qed
    then show ?thesis using False by (simp add: cpu_irq_def)
  qed
  show ?thesis
    using inv php_pushes [OF assms] brk_pushes [OF assms] plp_loads [OF assms]
      rti_loads [OF assms] interrupt_pushes [OF assms, of "0xFFFA"] irq irq_P
    by (simp only: optable_status_cases cpu_nmi_def)
qed

theorem b_flag_never_stored_witness:
  "wired (nes_init False None) \<and>
   P (cpu (fold apply_op [CpuNmi, CpuStep, RunCycles 3] (nes_init False None))) AND FLAG_B = 0 \<and>
   ram (NES.bus (snd (op_php (nes_init False None)))) 509 = 0x34 \<and>
   P (cpu (snd (op_php (nes_init False None)))) = 0x24"
proof -
  have w: "wired (nes_init False None)"
    by (simp add: wired_def nes_init_def cpu_connect_bus_def cpu_power_on_def)
  have f: "S (cpu (nes_init False None)) = 0xFD" "P (cpu (nes_init False None)) = 0x24"
    by (simp_all add: nes_init_def cpu_connect_bus_def cpu_power_on_def FLAG_U_def FLAG_I_def)
  from b_flag_never_stored [OF w, of "[CpuNmi, CpuStep, RunCycles 3]" False None]
  have "P (cpu (fold apply_op [CpuNmi, CpuStep, RunCycles 3] (nes_init False None))) AND FLAG_B = 0"
    and "ram (NES.bus (snd (op_php (nes_init False None))))
           (256 + unat (S (cpu (nes_init False None))))
           = P (cpu (nes_init False None)) OR FLAG_B OR FLAG_U"
    and "P (cpu (snd (op_php (nes_init False None)))) = P (cpu (nes_init False None))"
    by blast+
  then show ?thesis
    using w by (simp add: f FLAG_B_def FLAG_U_def)
qed

text \<open>
  Claim C7 as stated has BRK push the status "without changing P". BRK does change \<open>P\<close>:
  with I clear before (\<open>P\<close> = 0x20), \<open>P\<close> is 0x24 after.
\<close>

theorem brk_sets_interrupt_flag:
  "P (cpu (snd (op_brk ((nes_init False None)\<lparr>cpu := (cpu (nes_init False None))\<lparr>P := 0x20\<rparr>\<rparr>))))
     = 0x24"
proof -
  let ?n = "(nes_init False None)\<lparr>cpu := (cpu (nes_init False None))\<lparr>P := 0x20\<rparr>\<rparr>"
  have w: "wired ?n"
    by (simp add: wired_def nes_init_def cpu_connect_bus_def cpu_power_on_def)
  show ?thesis
    by (simp add: brk_pushes(2) [OF w] FLAG_I_def)
qed

section \<open>The cycle count of an instruction\<close>

text \<open>The addressing helpers report at most one extra cycle.\<close>

definition mode_extra_ok :: "(NES \<Rightarrow> Addr \<times> NES) \<Rightarrow> bool" where
  "mode_extra_ok m = (\<forall>n. uint (snd (fst (m n))) \<le> 1)"

definition cycles_ok :: "(NES \<Rightarrow> int \<times> NES) \<Rightarrow> bool" where
  "cycles_ok f = (\<forall>n. 2 \<le> fst (f n) \<and> fst (f n) \<le> 7)"

lemma mode_extra_all:
  "mode_extra_ok addr_imm" "mode_extra_ok addr_zp0" "mode_extra_ok addr_zpx"
  "mode_extra_ok addr_zpy" "mode_extra_ok addr_abs" "mode_extra_ok addr_abx"
  "mode_extra_ok addr_aby" "mode_extra_ok addr_ind" "mode_extra_ok addr_izx"
  "mode_extra_ok addr_izy"
  by (simp_all add: mode_extra_ok_def addr_imm_def addr_zp0_def addr_zpx_def addr_zpy_def
        addr_abs_def addr_abx_def addr_aby_def addr_ind_def addr_izx_def addr_izy_def
        Let_def case_prod_beta)

lemma cycles_ok_fixed:
  "cycles_ok op_brk" "cycles_ok op_jsr" "cycles_ok op_rts" "cycles_ok op_rti"
  "cycles_ok op_pla" "cycles_ok op_plp" "cycles_ok op_pha" "cycles_ok op_php"
  "cycles_ok (op_implied u)" "cycles_ok (op_branch cond)"
  by (simp_all add: cycles_ok_def op_brk_def op_jsr_def op_rts_def op_rti_def op_pla_def
        op_plp_def op_pha_def op_php_def op_implied_def op_branch_def Let_def case_prod_beta)

lemma cycles_ok_penalty:
  assumes m: "mode_extra_ok m" and c: "2 \<le> cyc" "cyc \<le> 6"
  shows "cycles_ok (op_logic f m cyc pen)" "cycles_ok (op_arith g m cyc pen)"
    "cycles_ok (op_compare r m cyc pen)" "cycles_ok (op_load st m cyc pen)"
  using c m [unfolded mode_extra_ok_def, rule_format]
  by (auto simp add: cycles_ok_def op_logic_def op_arith_def op_compare_def op_load_def
        Let_def case_prod_beta intro: order_trans add_mono)

lemma cycles_ok_plain:
  assumes c: "2 \<le> cyc" "cyc \<le> 7"
  shows "cycles_ok (op_incdec d m cyc)" "cycles_ok (op_shift sh m cyc)"
    "cycles_ok (op_bit m cyc)" "cycles_ok (op_jmp m cyc)" "cycles_ok (op_store r1 m cyc)"
  using c
  by (simp_all add: cycles_ok_def op_incdec_def op_shift_def op_bit_def op_jmp_def
        op_store_def Let_def case_prod_beta)

lemma cycles_ok_optable: "list_all (\<lambda>(op, f). cycles_ok f) optable"
  unfolding optable_def
  by (simp add: cycles_ok_fixed cycles_ok_penalty cycles_ok_plain mode_extra_all)

lemma cpu_step_cycles: "2 \<le> fst (cpu_step n) \<and> fst (cpu_step n) \<le> 7"
proof -
  have row: "2 \<le> fst (f m) \<and> fst (f m) \<le> 7" if "map_of optable op = Some f" for op f m
  proof -
    from that have "(op, f) \<in> set optable" by (rule map_of_SomeD)
    with cycles_ok_optable show ?thesis
      by (auto simp add: list_all_iff cycles_ok_def)
  qed
  show ?thesis
    by (simp add: cpu_step_def Let_def case_prod_beta row split: option.splits)
qed


section \<open>The loop of \<open>nes_run_cycles\<close>\<close>

text \<open>The number of times the body of the loop of \<open>nes_run_cycles\<close> runs: the same
  recursion, counting.\<close>

function run_cycles_iterations :: "NES \<Rightarrow> int \<Rightarrow> nat" where
  "run_cycles_iterations n remaining =
     (if remaining > 0
      then (let (used, n1) = nes_run_iteration n
            in Suc (run_cycles_iterations n1 (remaining - used)))
      else 0)"
  by pat_completeness auto
termination
proof (relation "measure (\<lambda>(n, remaining). nat remaining)")
  show "wf (measure (\<lambda>(n, remaining). nat remaining))" by simp
next
  fix n :: NES and remaining :: int and x :: "int \<times> NES" and used :: int and n1 :: NES
  assume pos: "0 < remaining" and x: "x = nes_run_iteration n" and p: "(used, n1) = x"
  have "0 < used" using nes_run_iteration_used_pos [of n] x p by (metis fst_conv)
  then show "((n1, remaining - used), (n, remaining)) \<in> measure (\<lambda>(n, remaining). nat remaining)"
    using pos by simp
qed

declare run_cycles_iterations.simps [simp del]

lemma nes_run_iteration_used: "fst (nes_run_iteration n) = fst (cpu_step n)"
  using cpu_step_cycles [of n]
  by (simp add: nes_run_iteration_def Let_def case_prod_beta)

lemma run_cycles_iterations_Suc:
  "0 < r \<Longrightarrow> run_cycles_iterations n r
     = Suc (run_cycles_iterations (snd (nes_run_iteration n)) (r - fst (cpu_step n)))"
  by (subst run_cycles_iterations.simps)
     (simp add: case_prod_beta nes_run_iteration_used)

lemma run_cycles_iterations_0: "r \<le> 0 \<Longrightarrow> run_cycles_iterations n r = 0"
  by (subst run_cycles_iterations.simps) simp

lemma run_cycles_iterations_bounds:
  "r \<le> 7 * int (run_cycles_iterations n r)
   \<and> 2 * int (run_cycles_iterations n r) \<le> max r 0 + 1"
proof (induction n r rule: run_cycles_iterations.induct)
  case (1 n r)
  show ?case
  proof (cases "0 < r")
    case False
    then show ?thesis by (simp add: run_cycles_iterations_0)
  next
    case True
    define u where "u = fst (cpu_step n)"
    define m where "m = snd (nes_run_iteration n)"
    have u: "2 \<le> u" "u \<le> 7" using cpu_step_cycles [of n] by (simp_all add: u_def)
    have p: "(u, m) = nes_run_iteration n"
      by (simp add: u_def m_def nes_run_iteration_used [symmetric])
    have ih: "r - u \<le> 7 * int (run_cycles_iterations m (r - u))
              \<and> 2 * int (run_cycles_iterations m (r - u)) \<le> max (r - u) 0 + 1"
      by (rule 1 [OF True refl p])
    have e: "run_cycles_iterations n r = Suc (run_cycles_iterations m (r - u))"
      using run_cycles_iterations_Suc [OF True, of n] by (simp add: u_def m_def)
    show ?thesis
    proof (cases "r - u \<le> 0")
      case True
      then show ?thesis using u \<open>0 < r\<close> by (simp add: e run_cycles_iterations_0)
    next
      case False
      then show ?thesis using u ih by (simp add: e)
    qed
  qed
qed

lemma nes_run_cycles_unfold:
  "nes_run_cycles n r
     = (if 0 < r then nes_run_cycles (snd (nes_run_iteration n)) (r - fst (cpu_step n)) else n)"
  by (subst nes_run_cycles.simps)
     (simp add: case_prod_beta nes_run_iteration_used)

text \<open>
  Claim C10. \<open>cpu_step\<close> returns at least 2 and at most 7, whatever the machine: the
  cases of the switch, the default case and the servicing of NMI and IRQ. So the loop
  of \<open>nes_run_cycles\<close> subtracts the return of \<open>cpu_step\<close> itself (the guard for a return
  of 0 or less never fires), the remaining count is strictly smaller after each
  iteration, and a call with \<open>r\<close> cycles runs the body at least \<open>r / 7\<close> and at most
  \<open>(r + 1) / 2\<close> times before it returns.
\<close>

theorem cpu_step_cycles_bound_run_cycles_terminates:
  "2 \<le> fst (cpu_step n) \<and> fst (cpu_step n) \<le> 7
   \<and> fst (nes_run_iteration n) = fst (cpu_step n)
   \<and> r - fst (nes_run_iteration n) < r
   \<and> nes_run_cycles n r
       = (if 0 < r then nes_run_cycles (snd (nes_run_iteration n)) (r - fst (cpu_step n))
          else n)
   \<and> run_cycles_iterations n r
       = (if 0 < r
          then Suc (run_cycles_iterations (snd (nes_run_iteration n)) (r - fst (cpu_step n)))
          else 0)
   \<and> r \<le> 7 * int (run_cycles_iterations n r)
   \<and> 2 * int (run_cycles_iterations n r) \<le> max r 0 + 1"
proof -
  have a: "r - fst (nes_run_iteration n) < r"
    using nes_run_iteration_used_pos [of n] by simp
  have b: "run_cycles_iterations n r
       = (if 0 < r
          then Suc (run_cycles_iterations (snd (nes_run_iteration n)) (r - fst (cpu_step n)))
          else 0)"
    by (simp add: run_cycles_iterations_Suc run_cycles_iterations_0)
  from cpu_step_cycles [of n] nes_run_iteration_used [of n] a
    nes_run_cycles_unfold [of n r] b run_cycles_iterations_bounds [of r n]
  show ?thesis by (simp only: simp_thms)
qed

section \<open>The position of the PPU across a dot\<close>

lemma fold_copy_sprite_slot_fields:
  "ppuctrl (fold copy_sprite_slot xs p) = ppuctrl p"
  "ppumask (fold copy_sprite_slot xs p) = ppumask p"
  "odd_frame (fold copy_sprite_slot xs p) = odd_frame p"
  "nmi_pending (fold copy_sprite_slot xs p) = nmi_pending p"
  by (induction xs arbitrary: p; simp add: copy_sprite_slot_def)+

lemma fold_advance_sprite_slot_fields:
  "ppuctrl (fold advance_sprite_slot xs p) = ppuctrl p"
  "ppumask (fold advance_sprite_slot xs p) = ppumask p"
  "odd_frame (fold advance_sprite_slot xs p) = odd_frame p"
  "nmi_pending (fold advance_sprite_slot xs p) = nmi_pending p"
  by (induction xs arbitrary: p; simp add: advance_sprite_slot_def)+

lemma load_line_sprites_fields:
  "ppuctrl (load_line_sprites p) = ppuctrl p"
  "ppumask (load_line_sprites p) = ppumask p"
  "odd_frame (load_line_sprites p) = odd_frame p"
  "nmi_pending (load_line_sprites p) = nmi_pending p"
  by (simp_all add: load_line_sprites_def Let_def fold_copy_sprite_slot_fields)

lemma render_pixel_fields:
  "ppuctrl (render_pixel k p sl d) = ppuctrl p"
  "ppumask (render_pixel k p sl d) = ppumask p"
  "odd_frame (render_pixel k p sl d) = odd_frame p"
  "nmi_pending (render_pixel k p sl d) = nmi_pending p"
  by (simp_all add: render_pixel_def Let_def case_prod_beta fold_advance_sprite_slot_fields
        if_distrib [of ppuctrl] if_distrib [of ppumask] if_distrib [of odd_frame]
        if_distrib [of nmi_pending] split del: if_split cong: if_cong)

lemma bg_fetch_odd_frame: "odd_frame (bg_fetch k p d) = odd_frame p"
  by (simp add: bg_fetch_def inc_coarse_x_def Let_def)

lemma v_update_fields:
  "ppuctrl (inc_y p) = ppuctrl p" "ppumask (inc_y p) = ppumask p"
  "odd_frame (inc_y p) = odd_frame p" "nmi_pending (inc_y p) = nmi_pending p"
  "ppuctrl (transfer_horizontal p) = ppuctrl p" "ppumask (transfer_horizontal p) = ppumask p"
  "odd_frame (transfer_horizontal p) = odd_frame p"
  "nmi_pending (transfer_horizontal p) = nmi_pending p"
  "ppuctrl (transfer_vertical p) = ppuctrl p" "ppumask (transfer_vertical p) = ppumask p"
  "odd_frame (transfer_vertical p) = odd_frame p"
  "nmi_pending (transfer_vertical p) = nmi_pending p"
  by (simp_all add: inc_y_def transfer_horizontal_def transfer_vertical_def Let_def
        case_prod_beta)

lemma fetch_sprite_fields:
  "ppuctrl (fetch_sprite k p s h row n) = ppuctrl p"
  "ppumask (fetch_sprite k p s h row n) = ppumask p"
  "odd_frame (fetch_sprite k p s h row n) = odd_frame p"
  "nmi_pending (fetch_sprite k p s h row n) = nmi_pending p"
  by (simp_all add: fetch_sprite_def Let_def case_prod_beta)

lemma sprite_eval_loop_fields:
  "ppuctrl (sprite_eval_loop k s h ns xs p) = ppuctrl p
   \<and> ppumask (sprite_eval_loop k s h ns xs p) = ppumask p
   \<and> odd_frame (sprite_eval_loop k s h ns xs p) = odd_frame p
   \<and> nmi_pending (sprite_eval_loop k s h ns xs p) = nmi_pending p"
  by (induction xs arbitrary: p) (simp_all add: Let_def fetch_sprite_fields)

lemma sprite_eval_fields:
  "ppuctrl (sprite_eval k p sl) = ppuctrl p"
  "ppumask (sprite_eval k p sl) = ppumask p"
  "odd_frame (sprite_eval k p sl) = odd_frame p"
  "nmi_pending (sprite_eval k p sl) = nmi_pending p"
  by (simp_all add: sprite_eval_def Let_def sprite_eval_loop_fields)

lemmas ppu_block_fields =
  load_line_sprites_fields render_pixel_fields bg_fetch_odd_frame v_update_fields
  sprite_eval_fields


text \<open>The dot that \<open>ppu_step\<close> works on: dot 1 instead of dot 0 on the pre-render line of
  an odd frame with rendering enabled.\<close>

definition odd_frame_skip :: "PPU \<Rightarrow> bool" where
  "odd_frame_skip p =
     (scanline p = 261 \<and> dot p = 0 \<and> ppumask p AND 0x18 \<noteq> 0 \<and> odd_frame p)"

definition worked_dot :: "PPU \<Rightarrow> int" where
  "worked_dot p = (if odd_frame_skip p then 1 else dot p)"

lemma ppu_step_scanline:
  "scanline (ppu_step k p)
     = (if worked_dot p + 1 \<ge> 341
        then (if scanline p + 1 \<ge> 262 then 0 else scanline p + 1)
        else scanline p)"
  apply (simp only: ppu_step_def sel_Let [of scanline])
  apply (simp add: Let_def PPU_DOTS_PER_LINE_def PPU_SCANLINES_def worked_dot_def
        odd_frame_skip_def)
  done

lemma ppu_step_dot:
  "dot (ppu_step k p) = (if worked_dot p + 1 \<ge> 341 then 0 else worked_dot p + 1)"
  apply (simp only: ppu_step_def sel_Let [of dot])
  apply (simp add: Let_def PPU_DOTS_PER_LINE_def PPU_SCANLINES_def worked_dot_def
        odd_frame_skip_def)
  done

lemma ppu_step_ppumask: "ppumask (ppu_step k p) = ppumask p"
  apply (simp only: ppu_step_def sel_Let [of ppumask])
  apply (simp add: Let_def ppu_block_fields if_distrib [of ppumask]
        split del: if_split cong: if_cong)
  done

lemma ppu_step_ppuctrl: "ppuctrl (ppu_step k p) = ppuctrl p"
  apply (simp only: ppu_step_def sel_Let [of ppuctrl])
  apply (simp add: Let_def ppu_block_fields if_distrib [of ppuctrl]
        split del: if_split cong: if_cong)
  done

lemma ppu_step_odd_frame:
  "odd_frame (ppu_step k p)
     = (if worked_dot p + 1 \<ge> 341 \<and> scanline p + 1 \<ge> 262
        then \<not> odd_frame p else odd_frame p)"
  apply (simp only: ppu_step_def sel_Let [of odd_frame])
  apply (simp add: Let_def ppu_block_fields if_distrib [of odd_frame]
        PPU_DOTS_PER_LINE_def PPU_SCANLINES_def worked_dot_def odd_frame_skip_def
        split del: if_split cong: if_cong)
  apply auto
  done

lemma ppu_step_nmi_pending:
  "nmi_pending (ppu_step k p)
     = (if scanline p = 241 \<and> worked_dot p = 1 \<and> ppuctrl p AND 0x80 \<noteq> 0
        then True else nmi_pending p)"
  apply (simp only: ppu_step_def sel_Let [of nmi_pending])
  apply (simp add: Let_def ppu_block_fields if_distrib [of nmi_pending]
        PPU_DOTS_PER_LINE_def PPU_SCANLINES_def worked_dot_def odd_frame_skip_def
        split del: if_split cong: if_cong)
  apply auto
  done


lemma ppu_step_pos:
  assumes "ppu_pos_valid p"
  shows "ppu_pos_valid (ppu_step k p)
    \<and> ppu_pos (ppu_step k p) = (ppu_pos p + 1 + (if odd_frame_skip p then 1 else 0)) mod 89342
    \<and> odd_frame (ppu_step k p) = (if ppu_pos p = 89341 then \<not> odd_frame p else odd_frame p)"
proof -
  have b: "0 \<le> scanline p" "scanline p < 262" "0 \<le> dot p" "dot p < 341"
    using assms by (simp_all add: ppu_pos_valid_def)
  consider (skip) "odd_frame_skip p"
    | (wrap) "\<not> odd_frame_skip p" "dot p = 340" "scanline p = 261"
    | (line) "\<not> odd_frame_skip p" "dot p = 340" "scanline p < 261"
    | (dot) "\<not> odd_frame_skip p" "dot p < 340"
    using b by linarith
  then show ?thesis
  proof cases
    case skip
    then have "scanline p = 261" "dot p = 0" by (simp_all add: odd_frame_skip_def)
    then show ?thesis
      using skip
      by (simp add: ppu_step_scanline ppu_step_dot ppu_step_odd_frame worked_dot_def
            ppu_pos_valid_def ppu_pos_def)
  next
    case wrap
    then show ?thesis
      by (simp add: ppu_step_scanline ppu_step_dot ppu_step_odd_frame worked_dot_def
            ppu_pos_valid_def ppu_pos_def)
  next
    case line
    then have "scanline p * 341 + dot p + 1 < 89342" "0 \<le> scanline p * 341 + dot p + 1"
      using b by linarith+
    then have "(scanline p * 341 + dot p + 1) mod 89342 = scanline p * 341 + dot p + 1"
      by simp
    then show ?thesis
      using line b
      by (simp add: ppu_step_scanline ppu_step_dot ppu_step_odd_frame worked_dot_def
            ppu_pos_valid_def ppu_pos_def)
  next
    case dot
    then have "scanline p * 341 + dot p + 1 < 89342" "0 \<le> scanline p * 341 + dot p + 1"
      "scanline p * 341 + dot p \<noteq> 89341"
      using b by linarith+
    then have "(scanline p * 341 + dot p + 1) mod 89342 = scanline p * 341 + dot p + 1"
      "scanline p * 341 + dot p \<noteq> 89341"
      by simp_all
    then show ?thesis
      using dot b
      by (simp add: ppu_step_scanline ppu_step_dot ppu_step_odd_frame worked_dot_def
            ppu_pos_valid_def ppu_pos_def)
  qed
qed

text \<open>The number of skipped dots in \<open>i\<close> steps from \<open>p\<close>: the steps that start on dot 0 of
  the pre-render line of an odd frame with rendering enabled.\<close>

primrec skipped_dots :: "Cartridge \<Rightarrow> nat \<Rightarrow> PPU \<Rightarrow> nat" where
  "skipped_dots k 0 p = 0"
| "skipped_dots k (Suc i) p
     = (if odd_frame_skip p then 1 else 0) + skipped_dots k i (ppu_step k p)"

lemma ppu_steps_pos:
  assumes "ppu_pos_valid p"
  shows "ppu_pos_valid (ppu_steps k i p)
    \<and> ppu_pos (ppu_steps k i p) = (ppu_pos p + int i + int (skipped_dots k i p)) mod 89342"
  using assms
proof (induction i arbitrary: p)
  case 0
  then show ?case by (simp add: ppu_pos_valid_def ppu_pos_def)
next
  case (Suc i)
  let ?q = "ppu_step k p"
  let ?s = "if odd_frame_skip p then 1 else 0 :: int"
  have v: "ppu_pos_valid ?q" and e: "ppu_pos ?q = (ppu_pos p + 1 + ?s) mod 89342"
    using ppu_step_pos [OF Suc.prems, of k] by simp_all
  have "(ppu_pos ?q + (int i + int (skipped_dots k i ?q))) mod 89342
      = ((ppu_pos p + 1 + ?s) + (int i + int (skipped_dots k i ?q))) mod 89342"
    by (simp only: e mod_add_left_eq)
  also have "(ppu_pos p + 1 + ?s) + (int i + int (skipped_dots k i ?q))
      = ppu_pos p + int (Suc i) + int (skipped_dots k (Suc i) p)"
    by simp
  finally have "(ppu_pos ?q + int i + int (skipped_dots k i ?q)) mod 89342
      = (ppu_pos p + int (Suc i) + int (skipped_dots k (Suc i) p)) mod 89342"
    by (simp only: add.assoc)
  with Suc.IH [OF v] show ?case by simp
qed

lemma skipped_dots_rendering_off:
  "ppumask p AND 0x18 = 0 \<Longrightarrow> skipped_dots k i p = 0"
  by (induction i arbitrary: p) (simp_all add: odd_frame_skip_def ppu_step_ppumask)


section \<open>The position of the PPU across a loop iteration\<close>

text \<open>No access of the CPU to the bus moves the position: the registers of the PPU, the
  OAM DMA and the other devices leave \<open>scanline\<close> and \<open>dot\<close> alone.\<close>

lemma ppu_write_mem_pos:
  "scanline (snd (ppu_write_mem k p a d)) = scanline p"
  "dot (snd (ppu_write_mem k p a d)) = dot p"
  by (simp_all add: ppu_write_mem_def Let_def split: option.splits)

lemma ppu_read_reg_pos:
  "scanline (snd (ppu_read_reg k p r)) = scanline p"
  "dot (snd (ppu_read_reg k p r)) = dot p"
  by (simp_all add: ppu_read_reg_def Let_def case_prod_beta)

lemma ppu_write_reg_pos:
  "scanline (snd (ppu_write_reg k p r d)) = scanline p"
  "dot (snd (ppu_write_reg k p r d)) = dot p"
  by (simp_all add: ppu_write_reg_def Let_def case_prod_beta ppu_write_mem_pos)

lemma bus_cpu_read_pos:
  "scanline (ppu (snd (bus_cpu_read n a))) = scanline (ppu n)"
  "dot (ppu (snd (bus_cpu_read n a))) = dot (ppu n)"
  by (simp_all add: bus_cpu_read_def Let_def case_prod_beta ppu_read_reg_pos
        split: option.splits)

lemma oam_dma_fold_pos:
  "scanline (ppu (fold (oam_dma_step base start) xs n)) = scanline (ppu n)
   \<and> dot (ppu (fold (oam_dma_step base start) xs n)) = dot (ppu n)"
  by (induction xs arbitrary: n)
     (simp_all add: oam_dma_step_def Let_def case_prod_beta bus_cpu_read_pos)

lemma bus_cpu_write_pos:
  "scanline (ppu (bus_cpu_write n a d)) = scanline (ppu n)"
  "dot (ppu (bus_cpu_write n a d)) = dot (ppu n)"
  by (simp_all add: bus_cpu_write_def Let_def case_prod_beta ppu_write_reg_pos
        oam_dma_fold_pos split: option.splits)

lemma bus_stable_pos: "bus_stable (\<lambda>n. (scanline (ppu n), dot (ppu n)))"
  by (simp add: bus_stable_def bus_cpu_read_pos bus_cpu_write_pos)

lemma cpu_step_pos:
  "scanline (ppu (snd (cpu_step n))) = scanline (ppu n)"
  "dot (ppu (snd (cpu_step n))) = dot (ppu n)"
  using stable_cpu_step [OF bus_stable_pos, of n] by simp_all

lemma apu_tick_pos:
  "scanline (ppu (apu_tick_cpu_cycles n c)) = scanline (ppu n)"
  "dot (ppu (apu_tick_cpu_cycles n c)) = dot (ppu n)"
proof -
  have "(\<lambda>n. (scanline (ppu n), dot (ppu n))) (apu_tick_cpu_cycles n c)
        = (\<lambda>n. (scanline (ppu n), dot (ppu n))) n"
    by (rule apu_tick_keeps) (simp_all add: bus_cpu_read_pos)
  then show "scanline (ppu (apu_tick_cpu_cycles n c)) = scanline (ppu n)"
    "dot (ppu (apu_tick_cpu_cycles n c)) = dot (ppu n)"
    by simp_all
qed

text \<open>The dots skipped in the PPU tick of one iteration of the loop.\<close>

definition iteration_skips :: "NES \<Rightarrow> nat" where
  "iteration_skips n =
     (let (used, n1) = cpu_step n
      in skipped_dots (NES.cart n1) (nat (used * 3)) (ppu n1))"

lemma nes_run_iteration_ppu_pos:
  "scanline (ppu (snd (nes_run_iteration n)))
     = scanline (ppu_tick_cpu_cycles (NES.cart (snd (cpu_step n))) (ppu (snd (cpu_step n)))
                   (fst (cpu_step n)))"
  "dot (ppu (snd (nes_run_iteration n)))
     = dot (ppu_tick_cpu_cycles (NES.cart (snd (cpu_step n))) (ppu (snd (cpu_step n)))
                   (fst (cpu_step n)))"
  using cpu_step_cycles [of n]
  by (simp_all add: nes_run_iteration_def Let_def case_prod_beta apu_tick_pos
        split: option.splits)

lemma nes_run_iteration_pos:
  assumes "ppu_pos_valid (ppu n)"
  shows "ppu_pos_valid (ppu (snd (nes_run_iteration n)))
    \<and> ppu_pos (ppu (snd (nes_run_iteration n)))
        = (ppu_pos (ppu n) + 3 * fst (cpu_step n) + int (iteration_skips n)) mod 89342"
proof -
  let ?n1 = "snd (cpu_step n)"
  let ?u = "fst (cpu_step n)"
  let ?q = "ppu_tick_cpu_cycles (NES.cart ?n1) (ppu ?n1) ?u"
  have u: "2 \<le> ?u" using cpu_step_cycles [of n] by simp
  have v1: "ppu_pos_valid (ppu ?n1)" and p1: "ppu_pos (ppu ?n1) = ppu_pos (ppu n)"
    using assms by (simp_all add: ppu_pos_valid_def ppu_pos_def cpu_step_pos)
  have q: "ppu_pos_valid ?q
    \<and> ppu_pos ?q = (ppu_pos (ppu ?n1) + int (nat (?u * 3))
                     + int (skipped_dots (NES.cart ?n1) (nat (?u * 3)) (ppu ?n1))) mod 89342"
    unfolding ppu_tick_cpu_cycles_def by (rule ppu_steps_pos [OF v1])
  have s: "iteration_skips n = skipped_dots (NES.cart ?n1) (nat (?u * 3)) (ppu ?n1)"
    by (simp add: iteration_skips_def case_prod_beta)
  have e: "int (nat (?u * 3)) = 3 * ?u" using u by simp
  have same: "ppu_pos_valid (ppu (snd (nes_run_iteration n))) = ppu_pos_valid ?q"
    "ppu_pos (ppu (snd (nes_run_iteration n))) = ppu_pos ?q"
    by (simp_all add: ppu_pos_valid_def ppu_pos_def nes_run_iteration_ppu_pos)
  show ?thesis
    using q by (simp only: same s e p1)
qed


text \<open>The machine states in which the loop of \<open>nes_run_cycles\<close> calls \<open>cpu_step\<close>, in
  order: the same recursion, collecting.\<close>

function run_cycles_steps :: "NES \<Rightarrow> int \<Rightarrow> NES list" where
  "run_cycles_steps n remaining =
     (if remaining > 0
      then (let (used, n1) = nes_run_iteration n
            in n # run_cycles_steps n1 (remaining - used))
      else [])"
  by pat_completeness auto
termination
proof (relation "measure (\<lambda>(n, remaining). nat remaining)")
  show "wf (measure (\<lambda>(n, remaining). nat remaining))" by simp
next
  fix n :: NES and remaining :: int and x :: "int \<times> NES" and used :: int and n1 :: NES
  assume pos: "0 < remaining" and x: "x = nes_run_iteration n" and p: "(used, n1) = x"
  have "0 < used" using nes_run_iteration_used_pos [of n] x p by (metis fst_conv)
  then show "((n1, remaining - used), (n, remaining)) \<in> measure (\<lambda>(n, remaining). nat remaining)"
    using pos by simp
qed

declare run_cycles_steps.simps [simp del]

lemma run_cycles_steps_unfold:
  "run_cycles_steps n r
     = (if 0 < r
        then n # run_cycles_steps (snd (nes_run_iteration n)) (r - fst (cpu_step n))
        else [])"
  by (subst run_cycles_steps.simps)
     (simp add: case_prod_beta nes_run_iteration_used)

definition cycles_used :: "NES list \<Rightarrow> int" where
  "cycles_used ms = sum_list (map (\<lambda>m. fst (cpu_step m)) ms)"

definition dots_skipped :: "NES list \<Rightarrow> int" where
  "dots_skipped ms = sum_list (map (\<lambda>m. int (iteration_skips m)) ms)"

lemma nes_run_cycles_pos:
  assumes "ppu_pos_valid (ppu n)"
  shows "ppu_pos_valid (ppu (nes_run_cycles n r))
    \<and> ppu_pos (ppu (nes_run_cycles n r))
        = (ppu_pos (ppu n) + 3 * cycles_used (run_cycles_steps n r)
             + dots_skipped (run_cycles_steps n r)) mod 89342"
  using assms
proof (induction n r rule: nes_run_cycles.induct)
  case (1 n r)
  have b: "0 \<le> ppu_pos (ppu n)" "ppu_pos (ppu n) < 89342"
    using "1.prems" by (auto simp add: ppu_pos_valid_def ppu_pos_def)
  show ?case
  proof (cases "0 < r")
    case False
    then show ?thesis
      using "1.prems" b
      by (simp add: nes_run_cycles_unfold [of n r] run_cycles_steps_unfold [of n r]
            cycles_used_def dots_skipped_def)
  next
    case True
    define u where "u = fst (cpu_step n)"
    define m where "m = snd (nes_run_iteration n)"
    define us where "us = cycles_used (run_cycles_steps m (r - u))"
    define sk where "sk = dots_skipped (run_cycles_steps m (r - u))"
    have p: "(u, m) = nes_run_iteration n"
      by (simp add: u_def m_def nes_run_iteration_used [symmetric])
    have it: "ppu_pos_valid (ppu m)"
      "ppu_pos (ppu m) = (ppu_pos (ppu n) + 3 * u + int (iteration_skips n)) mod 89342"
      using nes_run_iteration_pos [OF "1.prems"] by (simp_all add: u_def m_def)
    have ih: "ppu_pos_valid (ppu (nes_run_cycles m (r - u)))
      \<and> ppu_pos (ppu (nes_run_cycles m (r - u))) = (ppu_pos (ppu m) + 3 * us + sk) mod 89342"
      unfolding us_def sk_def by (rule "1.IH" [OF True refl p it(1)])
    have e1: "nes_run_cycles n r = nes_run_cycles m (r - u)"
      using True by (simp add: nes_run_cycles_unfold [of n r] u_def m_def)
    have e2: "run_cycles_steps n r = n # run_cycles_steps m (r - u)"
      using True by (simp add: run_cycles_steps_unfold [of n r] u_def m_def)
    have e3: "cycles_used (run_cycles_steps n r) = u + us"
      "dots_skipped (run_cycles_steps n r) = int (iteration_skips n) + sk"
      by (simp_all add: e2 cycles_used_def dots_skipped_def u_def us_def sk_def)
    have "(ppu_pos (ppu m) + (3 * us + sk)) mod 89342
        = ((ppu_pos (ppu n) + 3 * u + int (iteration_skips n)) + (3 * us + sk)) mod 89342"
      by (simp only: it(2) mod_add_left_eq)
    also have "(ppu_pos (ppu n) + 3 * u + int (iteration_skips n)) + (3 * us + sk)
        = ppu_pos (ppu n) + 3 * (u + us) + (int (iteration_skips n) + sk)"
      by simp
    finally have "(ppu_pos (ppu m) + 3 * us + sk) mod 89342
        = (ppu_pos (ppu n) + 3 * (u + us) + (int (iteration_skips n) + sk)) mod 89342"
      by (simp only: add.assoc)
    with ih show ?thesis by (simp only: e1 e3)
  qed
qed

section \<open>The cycle accumulator of the APU\<close>

text \<open>What the frame sequencer leaves in the accumulator: a value below the first step
  time stays; a value from the first step time up to the last is replaced by 0; the
  last step time is subtracted from a larger one, and the loop goes on.\<close>

function acc_after :: "int \<Rightarrow> int" where
  "acc_after m =
     (if m < 3729 then m else if m < 14916 then 0 else acc_after (m - 14916))"
  by pat_completeness auto
termination
  by (relation "measure nat") simp_all

declare acc_after.simps [simp del]

lemma step_index_0: "(step_index m = 0) = (m < 3729)"
  by (simp add: step_index_def step_times_def)

lemma fold_intermediate_step_acc:
  "cpu_cycle_mod (fold intermediate_step xs a) = cpu_cycle_mod a"
  by (induction xs arbitrary: a) (simp_all add: intermediate_step_def Let_def)

lemma frame_seq_body_acc:
  "cpu_cycle_mod (frame_seq_body idx a)
     = (if 14916 \<le> cpu_cycle_mod a then cpu_cycle_mod a - 14916 else 0)"
  by (simp add: frame_seq_body_def step_times_def Let_def)

lemma frame_seq_loop_acc: "cpu_cycle_mod (frame_seq_loop a) = acc_after (cpu_cycle_mod a)"
proof (induction a rule: frame_seq_loop.induct)
  case (1 a)
  define m where "m = cpu_cycle_mod a"
  consider (low) "m < 3729" | (mid) "3729 \<le> m" "m < 14916" | (high) "14916 \<le> m"
    by linarith
  then show ?case
  proof cases
    case low
    then show ?thesis
      by (subst frame_seq_loop.simps, subst acc_after.simps)
         (simp add: step_index_0 m_def [symmetric])
  next
    case mid
    let ?b = "frame_seq_body (step_index (cpu_cycle_mod a)) a"
    have nz: "step_index (cpu_cycle_mod a) \<noteq> 0"
      using mid by (simp add: step_index_0 m_def)
    have b: "cpu_cycle_mod ?b = 0"
      using mid by (simp add: frame_seq_body_acc m_def)
    have "cpu_cycle_mod (frame_seq_loop ?b) = acc_after (cpu_cycle_mod ?b)"
      by (rule 1 [OF refl nz])
    also have "\<dots> = 0" by (subst acc_after.simps) (simp add: b)
    finally have r: "cpu_cycle_mod (frame_seq_loop ?b) = 0" .
    have l: "frame_seq_loop a = frame_seq_loop ?b"
      using nz by (subst frame_seq_loop.simps) (simp add: Let_def)
    have "acc_after (cpu_cycle_mod a) = 0"
      using mid by (subst acc_after.simps) (simp add: m_def)
    with r l show ?thesis by simp
  next
    case high
    let ?b = "frame_seq_body (step_index (cpu_cycle_mod a)) a"
    have nz: "step_index (cpu_cycle_mod a) \<noteq> 0"
      using high by (simp add: step_index_0 m_def)
    have b: "cpu_cycle_mod ?b = m - 14916"
      using high by (simp add: frame_seq_body_acc m_def)
    have "cpu_cycle_mod (frame_seq_loop ?b) = acc_after (cpu_cycle_mod ?b)"
      by (rule 1 [OF refl nz])
    then have r: "cpu_cycle_mod (frame_seq_loop ?b) = acc_after (m - 14916)"
      by (simp only: b)
    have l: "frame_seq_loop a = frame_seq_loop ?b"
      using nz by (subst frame_seq_loop.simps) (simp add: Let_def)
    have "acc_after (cpu_cycle_mod a) = acc_after (m - 14916)"
      using high by (subst acc_after.simps) (simp add: m_def)
    with r l show ?thesis by simp
  qed
qed

lemma apu_tick_frame_sequencer_acc:
  "cpu_cycle_mod (apu_tick_frame_sequencer a c) = acc_after (cpu_cycle_mod a + c)"
  by (simp add: apu_tick_frame_sequencer_def frame_seq_loop_acc)

text \<open>The DMC half of the tick leaves the accumulator alone, also when its bus read
  lands on the status register of the APU.\<close>

lemma bus_cpu_read_acc:
  "map_option cpu_cycle_mod (apu (snd (bus_cpu_read n addr))) = map_option cpu_cycle_mod (apu n)"
  by (simp add: bus_cpu_read_def apu_read_def Let_def case_prod_beta split: option.splits)

lemma dmc_clock_acc:
  assumes "apu n = Some a"
  shows "map_option cpu_cycle_mod (apu (dmc_clock n)) = Some (cpu_cycle_mod a)"
proof -
  have f: "\<exists>a'. apu (dmc_fetch n) = Some a' \<and> cpu_cycle_mod a' = cpu_cycle_mod a"
  proof (cases "\<not> dmc_buffer_full a \<and> APU.bus a \<and> dmc_remaining a > 0")
    case False
    then show ?thesis using assms by (auto simp add: dmc_fetch_def Let_def)
  next
    case True
    from bus_cpu_read_acc [of n "dmc_cur_addr a"] assms
    obtain a1 where "apu (snd (bus_cpu_read n (dmc_cur_addr a))) = Some a1"
      "cpu_cycle_mod a1 = cpu_cycle_mod a"
      by auto
    then show ?thesis
      using assms True by (simp add: dmc_fetch_def Let_def case_prod_beta)
  qed
  then obtain a' where a': "apu (dmc_fetch n) = Some a'" "cpu_cycle_mod a' = cpu_cycle_mod a"
    by blast
  show ?thesis
    using assms a'
    by (simp add: dmc_clock_def Let_def dmc_refill_def dmc_output_bit_def)
qed

lemma dmc_loop_acc:
  "apu n = Some a \<Longrightarrow> map_option cpu_cycle_mod (apu (dmc_loop n)) = Some (cpu_cycle_mod a)"
proof (induction n arbitrary: a rule: dmc_loop.induct)
  case (1 n)
  show ?case
  proof (cases "1 \<le> dmc_phase a")
    case False
    then show ?thesis
      using "1.prems" by (subst dmc_loop.simps) (simp add: Let_def)
  next
    case True
    let ?a1 = "a\<lparr>dmc_phase := dmc_phase a - 1\<rparr>"
    let ?n1 = "n\<lparr>apu := Some ?a1\<rparr>"
    have t: "1 \<le> dmc_phase (the (apu n))" using True "1.prems" by simp
    have c: "map_option cpu_cycle_mod (apu (dmc_clock ?n1)) = Some (cpu_cycle_mod ?a1)"
      by (rule dmc_clock_acc) simp
    then obtain a2 where a2: "apu (dmc_clock ?n1) = Some a2" "cpu_cycle_mod a2 = cpu_cycle_mod a"
      by auto
    have e: "the (apu n) = a" using "1.prems" by simp
    have "map_option cpu_cycle_mod (apu (dmc_loop (dmc_clock ?n1))) = Some (cpu_cycle_mod a2)"
      using "1.IH" [OF refl t, of a2] a2(1) by (simp add: e)
    moreover have "dmc_loop n = dmc_loop (dmc_clock ?n1)"
      using True by (subst dmc_loop.simps) (simp add: Let_def e)
    ultimately show ?thesis by (simp add: a2(2))
  qed
qed

lemma apu_tick_acc:
  "map_option cpu_cycle_mod (apu (apu_tick_cpu_cycles n c))
     = map_option (\<lambda>a. acc_after (cpu_cycle_mod a + c)) (apu n)"
proof (cases "apu n")
  case None
  then show ?thesis by (simp add: apu_tick_cpu_cycles_def)
next
  case (Some a)
  let ?a1 = "apu_tick_frame_sequencer a c"
  let ?a2 = "?a1\<lparr>dmc_phase := dmc_phase ?a1 + dmc_inc ?a1 * real_of_int c\<rparr>"
  have "map_option cpu_cycle_mod (apu (dmc_loop (n\<lparr>apu := Some ?a2\<rparr>)))
          = Some (cpu_cycle_mod ?a2)"
    by (rule dmc_loop_acc) simp
  then show ?thesis
    using Some
    by (simp add: apu_tick_cpu_cycles_def Let_def apu_tick_frame_sequencer_acc)
qed

text \<open>The PPU tick and the forwarding of the interrupt lines leave the APU alone, so
  the accumulator after an iteration of the loop is that after the CPU step, ticked.\<close>

lemma nes_run_iteration_acc:
  "map_option cpu_cycle_mod (apu (snd (nes_run_iteration n)))
     = map_option (\<lambda>a. acc_after (cpu_cycle_mod a + fst (cpu_step n))) (apu (snd (cpu_step n)))"
proof -
  let ?n1 = "snd (cpu_step n)"
  let ?u = "fst (cpu_step n)"
  let ?n2 = "?n1\<lparr>ppu := ppu_tick_cpu_cycles (NES.cart ?n1) (ppu ?n1) ?u\<rparr>"
  let ?n3 = "if nmi_pending (ppu ?n2)
             then ?n2\<lparr>ppu := (ppu ?n2)\<lparr>nmi_pending := False\<rparr>,
                      cpu := (cpu ?n2)\<lparr>nmi_line := True\<rparr>\<rparr>
             else ?n2"
  have u: "\<not> ?u \<le> 0" using cpu_step_cycles [of n] by simp
  have a3: "apu ?n3 = apu ?n1" by simp
  have t: "map_option cpu_cycle_mod (apu (apu_tick_cpu_cycles ?n3 ?u))
     = map_option (\<lambda>a. acc_after (cpu_cycle_mod a + ?u)) (apu ?n1)"
    by (simp only: apu_tick_acc a3)
  have "apu (snd (nes_run_iteration n)) = apu (apu_tick_cpu_cycles ?n3 ?u)"
  proof (cases "apu ?n1")
    case None
    then show ?thesis
      using u
      by (simp add: nes_run_iteration_def Let_def case_prod_beta apu_tick_cpu_cycles_def)
  next
    case (Some a)
    then show ?thesis
      using u by (simp add: nes_run_iteration_def Let_def case_prod_beta)
  qed
  then show ?thesis using t by simp
qed

section \<open>Two frames of dots\<close>

text \<open>The position within a pair of frames, the even one first. The only step that
  skips a dot starts at 178343: dot 0 of the pre-render line of the odd frame.\<close>

definition ppu_clock :: "PPU \<Rightarrow> int" where
  "ppu_clock p = (if odd_frame p then 89342 else 0) + ppu_pos p"

lemma pos_89001:
  assumes "ppu_pos_valid p" and "ppu_pos p = 89001"
  shows "scanline p = 261 \<and> dot p = 0"
proof -
  have b: "0 \<le> scanline p" "scanline p < 262" "0 \<le> dot p" "dot p < 341"
    "scanline p * 341 + dot p = 89001"
    using assms by (simp_all add: ppu_pos_valid_def ppu_pos_def)
  have s: "scanline p = 261" using b by linarith
  with b(5) have "dot p = 0" by simp
  with s show ?thesis by simp
qed

lemma ppu_step_clock:
  assumes v: "ppu_pos_valid p" and c: "ppu_clock p < 178343"
  shows "ppu_pos_valid (ppu_step k p) \<and> ppu_clock (ppu_step k p) = ppu_clock p + 1
         \<and> \<not> odd_frame_skip p"
proof -
  have b: "0 \<le> ppu_pos p" "ppu_pos p < 89342"
    using v by (auto simp add: ppu_pos_valid_def ppu_pos_def)
  have ns: "\<not> odd_frame_skip p"
  proof
    assume s: "odd_frame_skip p"
    then have "ppu_pos p = 89001" "odd_frame p"
      by (simp_all add: odd_frame_skip_def ppu_pos_def)
    then show False using c by (simp add: ppu_clock_def)
  qed
  from ppu_step_pos [OF v, of k] ns
  have s: "ppu_pos_valid (ppu_step k p)"
    "ppu_pos (ppu_step k p) = (ppu_pos p + 1) mod 89342"
    "odd_frame (ppu_step k p) = (if ppu_pos p = 89341 then \<not> odd_frame p else odd_frame p)"
    by simp_all
  show ?thesis
  proof (cases "ppu_pos p = 89341")
    case True
    then have "\<not> odd_frame p" using c by (auto simp add: ppu_clock_def)
    then show ?thesis using True s ns by (simp add: ppu_clock_def)
  next
    case False
    then have "(ppu_pos p + 1) mod 89342 = ppu_pos p + 1" using b by simp
    then show ?thesis using False s ns by (simp add: ppu_clock_def)
  qed
qed

lemma ppu_steps_clock:
  assumes "ppu_pos_valid p" and "ppu_clock p + int i \<le> 178343"
  shows "ppu_pos_valid (ppu_steps k i p) \<and> ppu_clock (ppu_steps k i p) = ppu_clock p + int i
         \<and> skipped_dots k i p = 0"
  using assms
proof (induction i arbitrary: p)
  case 0
  then show ?case by simp
next
  case (Suc i)
  have c: "ppu_clock p < 178343" using Suc.prems(2) by simp
  from ppu_step_clock [OF Suc.prems(1) c, of k]
  have s: "ppu_pos_valid (ppu_step k p)" "ppu_clock (ppu_step k p) = ppu_clock p + 1"
    "\<not> odd_frame_skip p"
    by simp_all
  have "ppu_clock (ppu_step k p) + int i \<le> 178343" using Suc.prems(2) s(2) by simp
  from Suc.IH [OF s(1) this] show ?case using s by simp
qed

lemma ppu_steps_registers:
  "ppumask (ppu_steps k i p) = ppumask p \<and> ppuctrl (ppu_steps k i p) = ppuctrl p"
  by (induction i arbitrary: p) (simp_all add: ppu_step_ppumask ppu_step_ppuctrl)

lemma ppu_steps_no_nmi:
  "ppuctrl p AND 0x80 = 0 \<Longrightarrow> nmi_pending (ppu_steps k i p) = nmi_pending p"
  by (induction i arbitrary: p) (simp_all add: ppu_step_nmi_pending ppu_step_ppuctrl)

lemma ppu_steps_add: "ppu_steps k (i + j) p = ppu_steps k j (ppu_steps k i p)"
  by (induction i arbitrary: p) simp_all

lemma skipped_dots_add:
  "skipped_dots k (i + j) p = skipped_dots k i p + skipped_dots k j (ppu_steps k i p)"
  by (induction i arbitrary: p) simp_all

text \<open>The step that skips.\<close>

lemma ppu_step_skip:
  assumes v: "ppu_pos_valid p" and c: "ppu_clock p = 178343" and m: "ppumask p AND 0x18 \<noteq> 0"
  shows "odd_frame_skip p \<and> ppu_pos (ppu_step k p) = 89003"
proof -
  have b: "0 \<le> ppu_pos p" "ppu_pos p < 89342"
    using v by (auto simp add: ppu_pos_valid_def ppu_pos_def)
  have o: "odd_frame p" "ppu_pos p = 89001"
    using c b by (auto simp add: ppu_clock_def split: if_splits)
  from pos_89001 [OF v o(2)] have s: "odd_frame_skip p"
    using o m by (simp add: odd_frame_skip_def)
  from ppu_step_pos [OF v, of k] s o show ?thesis by simp
qed


section \<open>A program that turns rendering on\<close>

text \<open>A cartridge as \<open>cartridge_load\<close> builds it from an iNES file with one 16 KiB bank of
  program ROM, no character ROM (so 8 KiB of character RAM) and vertical mirroring. The
  program is \<open>LDA #$08; STA $2001; JMP $8005\<close> at 0x8000: it sets the mask register to
  show the background and then loops on the jump. The reset vector of the file is 0, so
  \<open>nes_reset\<close> starts the program at 0x8000.\<close>

definition skip_test_prg :: "nat \<Rightarrow> 8 word" where
  "skip_test_prg i =
     (if i < 8 then [0xA9, 0x08, 0x8D, 0x01, 0x20, 0x4C, 0x05, 0x80] ! i else 0)"

definition skip_test_rom :: Cartridge where
  "skip_test_rom =
     \<lparr> prg_rom = Some skip_test_prg, prg_rom_size = 16 * 1024,
       chr = Some (\<lambda>_. 0), chr_size = 8 * 1024, chr_is_ram = True,
       prg_ram = Some (\<lambda>_. 0), prg_ram_size = 8 * 1024, mapper = 0,
       Cartridge.mirror = MIRROR_VERTICAL, battery = False, trainer_present = False \<rparr>"

definition skip_test_machine :: NES where
  "skip_test_machine = nes_reset (nes_load_rom (nes_init True (Some 44100)) skip_test_rom)"

definition rom_wired :: "NES \<Rightarrow> bool" where
  "rom_wired n = (CPU.bus (cpu n) \<and> nes (NES.bus n) \<and> NES.cart n = skip_test_rom
                  \<and> \<not> nmi_line (cpu n) \<and> P (cpu n) = 0x24)"

lemma optable_program:
  "map_of optable 0xA9 = Some (op_load (\<lambda>b c. c\<lparr>A := b\<rparr>) addr_imm 2 False)"
  "map_of optable 0x8D = Some (op_store A addr_abs 4)"
  "map_of optable 0x4C = Some (op_jmp addr_abs 3)"
  by (simp_all add: optable_def)

lemma rom_read:
  assumes "rom_wired n"
  shows "cpu_read n 0x8000 = (0xA9, n)" "cpu_read n 0x8001 = (0x08, n)"
    "cpu_read n 0x8002 = (0x8D, n)" "cpu_read n 0x8003 = (0x01, n)"
    "cpu_read n 0x8004 = (0x20, n)" "cpu_read n 0x8005 = (0x4C, n)"
    "cpu_read n 0x8006 = (0x05, n)" "cpu_read n 0x8007 = (0x80, n)"
  using assms
  by (simp_all add: rom_wired_def cpu_read_def bus_cpu_read_def cart_cpu_read_def
        skip_test_rom_def skip_test_prg_def Let_def word_le_nat_alt)

lemma rom_wired_cpu:
  "rom_wired (n\<lparr>cpu := c\<rparr>)
     = (CPU.bus c \<and> nes (NES.bus n) \<and> NES.cart n = skip_test_rom \<and> \<not> nmi_line c \<and> P c = 0x24)"
  by (simp add: rom_wired_def)

lemma step_lda:
  assumes w: "rom_wired n" and pc: "PC (cpu n) = 0x8000"
  shows "cpu_step n
     = (2, n\<lparr>cpu := (cpu n)\<lparr>A := 8, PC := 0x8002, P := 0x24, cycles := cycles (cpu n) + 2\<rparr>\<rparr>)"
proof -
  have f: "\<not> nmi_line (cpu n)" "P (cpu n) = 0x24" "CPU.bus (cpu n)"
    using w by (simp_all add: rom_wired_def)
  let ?n1 = "n\<lparr>cpu := (cpu n)\<lparr>PC := 0x8001\<rparr>\<rparr>"
  have w1: "rom_wired ?n1" using w by (simp add: rom_wired_def)
  have f8: "fetch8 n = (0xA9, ?n1)"
    by (simp add: fetch8_def Let_def pc rom_read [OF w1])
  let ?n2 = "n\<lparr>cpu := (cpu n)\<lparr>PC := 0x8002\<rparr>\<rparr>"
  have w2: "rom_wired ?n2" using w by (simp add: rom_wired_def)
  have op: "op_load (\<lambda>b c. c\<lparr>A := b\<rparr>) addr_imm 2 False ?n1
      = (2, n\<lparr>cpu := (cpu n)\<lparr>A := 8, PC := 0x8002, P := 0x24\<rparr>\<rparr>)"
    by (simp add: op_load_def addr_imm_def Let_def rom_read [OF w2] set_zn_def set_bit_u8_def
          FLAG_Z_def FLAG_N_def f)
  show ?thesis
    by (simp add: cpu_step_def f f8 optable_program op FLAG_I_def)
qed


lemma step_sta:
  assumes w: "rom_wired n" and pc: "PC (cpu n) = 0x8002"
  shows "cpu_step n
     = (4, n\<lparr>cpu := (cpu n)\<lparr>PC := 0x8005, cycles := cycles (cpu n) + 4\<rparr>,
             ppu := (ppu n)\<lparr>ppumask := A (cpu n)\<rparr>\<rparr>)"
proof -
  have f: "\<not> nmi_line (cpu n)" "P (cpu n) = 0x24" "CPU.bus (cpu n)" "nes (NES.bus n)"
    using w by (simp_all add: rom_wired_def)
  let ?n1 = "n\<lparr>cpu := (cpu n)\<lparr>PC := 0x8003\<rparr>\<rparr>"
  let ?n2 = "n\<lparr>cpu := (cpu n)\<lparr>PC := 0x8004\<rparr>\<rparr>"
  let ?n3 = "n\<lparr>cpu := (cpu n)\<lparr>PC := 0x8005\<rparr>\<rparr>"
  have w1: "rom_wired ?n1" and w2: "rom_wired ?n2" and w3: "rom_wired ?n3"
    using w by (simp_all add: rom_wired_def)
  have f8: "fetch8 n = (0x8D, ?n1)"
    by (simp add: fetch8_def Let_def pc rom_read [OF w1])
  have f16: "fetch16 ?n1 = (0x2001, ?n3)"
    by (simp add: fetch16_def fetch8_def Let_def rom_read [OF w2] rom_read [OF w3] make16_def)
  have wr: "cpu_write ?n3 0x2001 (A (cpu n))
      = n\<lparr>cpu := (cpu n)\<lparr>PC := 0x8005\<rparr>, ppu := (ppu n)\<lparr>ppumask := A (cpu n)\<rparr>\<rparr>"
    by (simp add: cpu_write_def bus_cpu_write_def ppu_write_reg_def Let_def f word_le_nat_alt)
  have op: "op_store A addr_abs 4 ?n1
      = (4, n\<lparr>cpu := (cpu n)\<lparr>PC := 0x8005\<rparr>, ppu := (ppu n)\<lparr>ppumask := A (cpu n)\<rparr>\<rparr>)"
    by (simp add: op_store_def addr_abs_def f16 wr)
  show ?thesis
    by (simp add: cpu_step_def f f8 optable_program op FLAG_I_def)
qed

lemma step_jmp:
  assumes w: "rom_wired n" and pc: "PC (cpu n) = 0x8005"
  shows "cpu_step n = (3, n\<lparr>cpu := (cpu n)\<lparr>PC := 0x8005, cycles := cycles (cpu n) + 3\<rparr>\<rparr>)"
proof -
  have f: "\<not> nmi_line (cpu n)" "P (cpu n) = 0x24" "CPU.bus (cpu n)" "nes (NES.bus n)"
    using w by (simp_all add: rom_wired_def)
  let ?n1 = "n\<lparr>cpu := (cpu n)\<lparr>PC := 0x8006\<rparr>\<rparr>"
  let ?n2 = "n\<lparr>cpu := (cpu n)\<lparr>PC := 0x8007\<rparr>\<rparr>"
  let ?n3 = "n\<lparr>cpu := (cpu n)\<lparr>PC := 0x8008\<rparr>\<rparr>"
  have w1: "rom_wired ?n1" and w2: "rom_wired ?n2" and w3: "rom_wired ?n3"
    using w by (simp_all add: rom_wired_def)
  have f8: "fetch8 n = (0x4C, ?n1)"
    by (simp add: fetch8_def Let_def pc rom_read [OF w1])
  have f16: "fetch16 ?n1 = (0x8005, ?n3)"
    by (simp add: fetch16_def fetch8_def Let_def rom_read [OF w2] rom_read [OF w3] make16_def)
  have op: "op_jmp addr_abs 3 ?n1 = (3, n\<lparr>cpu := (cpu n)\<lparr>PC := 0x8005\<rparr>\<rparr>)"
    by (simp add: op_jmp_def addr_abs_def f16)
  show ?thesis
    by (simp add: cpu_step_def f f8 optable_program op FLAG_I_def)
qed


section \<open>The loop of the shell around the program\<close>

text \<open>With the DMC channel disabled the APU tick is the frame sequencer alone, and the
  frame sequencer leaves the channel disabled.\<close>

lemma dmc_enabled_quarter_frame: "dmc_enabled (apu_quarter_frame a) = dmc_enabled a"
  unfolding apu_quarter_frame_def
  by (simp add: sel_Let [of dmc_enabled] if_distrib [of dmc_enabled] cong: if_cong)

lemma dmc_enabled_half_frame: "dmc_enabled (apu_half_frame a) = dmc_enabled a"
  unfolding apu_half_frame_def
  by (simp add: sel_Let [of dmc_enabled] if_distrib [of dmc_enabled] cong: if_cong)

lemma dmc_enabled_intermediate:
  "dmc_enabled (fold intermediate_step xs a) = dmc_enabled a"
  by (induction xs arbitrary: a)
     (simp_all add: intermediate_step_def Let_def dmc_enabled_quarter_frame
        dmc_enabled_half_frame)

lemma dmc_enabled_frame_seq_body: "dmc_enabled (frame_seq_body idx a) = dmc_enabled a"
  by (simp add: frame_seq_body_def Let_def dmc_enabled_quarter_frame dmc_enabled_half_frame
        dmc_enabled_intermediate)

lemma dmc_enabled_frame_seq_loop: "dmc_enabled (frame_seq_loop a) = dmc_enabled a"
proof (induction a rule: frame_seq_loop.induct)
  case (1 a)
  show ?case
  proof (cases "step_index (cpu_cycle_mod a) = 0")
    case True
    then show ?thesis by (subst frame_seq_loop.simps) (simp add: Let_def)
  next
    case False
    have "frame_seq_loop a = frame_seq_loop (frame_seq_body (step_index (cpu_cycle_mod a)) a)"
      using False by (subst frame_seq_loop.simps) (simp add: Let_def)
    with 1 [OF refl False] show ?thesis by (simp add: dmc_enabled_frame_seq_body)
  qed
qed

lemma apu_tick_dmc_off:
  assumes "apu n = Some a" and "\<not> dmc_enabled a"
  shows "apu_tick_cpu_cycles n c = n\<lparr>apu := Some (apu_tick_frame_sequencer a c)\<rparr>"
    and "\<not> dmc_enabled (apu_tick_frame_sequencer a c)"
  using assms
  by (simp_all add: apu_tick_cpu_cycles_def Let_def apu_tick_frame_sequencer_def
        dmc_enabled_frame_seq_loop)

text \<open>What the loop keeps while the program runs: the wiring, the cartridge, the status
  register of the CPU with I set, NMI generation off and none pending, a valid position,
  and an APU with the DMC channel disabled.\<close>

definition steady :: "NES \<Rightarrow> bool" where
  "steady n =
     (rom_wired n \<and> ppuctrl (ppu n) = 0 \<and> \<not> nmi_pending (ppu n) \<and> ppu_pos_valid (ppu n)
      \<and> (\<exists>a. apu n = Some a \<and> \<not> dmc_enabled a))"

lemma iteration_steady:
  assumes st: "cpu_step n = (u, n1)" and s1: "steady n1"
  shows "fst (nes_run_iteration n) = u"
    and "steady (snd (nes_run_iteration n))"
    and "PC (cpu (snd (nes_run_iteration n))) = PC (cpu n1)"
    and "ppu (snd (nes_run_iteration n)) = ppu_steps skip_test_rom (nat (u * 3)) (ppu n1)"
    and "A (cpu (snd (nes_run_iteration n))) = A (cpu n1)"
proof -
  let ?q = "ppu_steps skip_test_rom (nat (u * 3)) (ppu n1)"
  have u: "\<not> u \<le> 0" using cpu_step_cycles [of n] st by simp
  have k: "NES.cart n1 = skip_test_rom" using s1 by (simp add: steady_def rom_wired_def)
  have c0: "ppuctrl (ppu n1) AND 0x80 = 0" using s1 by (simp add: steady_def)
  have np: "\<not> nmi_pending ?q"
    using ppu_steps_no_nmi [OF c0, of skip_test_rom "nat (u * 3)"] s1
    by (simp add: steady_def)
  have vq: "ppu_pos_valid ?q"
    using ppu_steps_pos [of "ppu n1" skip_test_rom "nat (u * 3)"] s1 by (simp add: steady_def)
  have cq: "ppuctrl ?q = 0"
    using ppu_steps_registers [of skip_test_rom "nat (u * 3)" "ppu n1"] s1
    by (simp add: steady_def)
  from s1 obtain a where a: "apu n1 = Some a" "\<not> dmc_enabled a"
    by (auto simp add: steady_def)
  let ?a1 = "apu_tick_frame_sequencer a u"
  let ?m = "n1\<lparr>ppu := ?q, apu := Some ?a1\<rparr>"
  have t: "apu_tick_cpu_cycles (n1\<lparr>ppu := ?q\<rparr>) u = ?m"
    using apu_tick_dmc_off(1) [of "n1\<lparr>ppu := ?q\<rparr>" a u] a by simp
  have d1: "\<not> dmc_enabled ?a1" by (rule apu_tick_dmc_off(2) [OF a])
  have e: "nes_run_iteration n
      = (u, if apu_frame_irq_pending (Some ?a1) \<or> apu_dmc_irq_pending (Some ?a1)
            then ?m\<lparr>cpu := (cpu n1)\<lparr>irq_line := True\<rparr>\<rparr> else ?m)"
    using u np a
    by (simp add: nes_run_iteration_def st Let_def k ppu_tick_cpu_cycles_def t)
  show "fst (nes_run_iteration n) = u" by (simp add: e)
  show "steady (snd (nes_run_iteration n))"
    using s1 np vq cq d1 by (simp add: e steady_def rom_wired_def)
  show "PC (cpu (snd (nes_run_iteration n))) = PC (cpu n1)" by (simp add: e)
  show "ppu (snd (nes_run_iteration n)) = ?q" by (simp add: e)
  show "A (cpu (snd (nes_run_iteration n))) = A (cpu n1)" by (simp add: e)
qed

definition jmp_state :: "NES \<Rightarrow> bool" where
  "jmp_state n = (steady n \<and> PC (cpu n) = 0x8005 \<and> ppumask (ppu n) = 8)"

lemma jmp_iteration:
  assumes "jmp_state n"
  shows "fst (cpu_step n) = 3"
    and "jmp_state (snd (nes_run_iteration n))"
    and "ppu (snd (nes_run_iteration n)) = ppu_steps skip_test_rom 9 (ppu n)"
    and "apu (snd (cpu_step n)) = apu n"
proof -
  let ?n1 = "n\<lparr>cpu := (cpu n)\<lparr>PC := 0x8005, cycles := cycles (cpu n) + 3\<rparr>\<rparr>"
  have w: "rom_wired n" and pc: "PC (cpu n) = 0x8005"
    using assms by (simp_all add: jmp_state_def steady_def)
  have st: "cpu_step n = (3, ?n1)" by (rule step_jmp [OF w pc])
  have s1: "steady ?n1" using assms by (simp add: jmp_state_def steady_def rom_wired_def)
  show "fst (cpu_step n) = 3" by (simp add: st)
  show "apu (snd (cpu_step n)) = apu n" by (simp add: st)
  from iteration_steady [OF st s1]
  have i: "steady (snd (nes_run_iteration n))"
    "PC (cpu (snd (nes_run_iteration n))) = 0x8005"
    "ppu (snd (nes_run_iteration n)) = ppu_steps skip_test_rom 9 (ppu n)"
    by simp_all
  show "ppu (snd (nes_run_iteration n)) = ppu_steps skip_test_rom 9 (ppu n)" by (rule i(3))
  have "ppumask (ppu (snd (nes_run_iteration n))) = 8"
    using assms ppu_steps_registers [of skip_test_rom 9 "ppu n"]
    by (simp add: i(3) jmp_state_def)
  with i show "jmp_state (snd (nes_run_iteration n))" by (simp add: jmp_state_def)
qed


lemma jmp_loop:
  assumes "jmp_state n" and "ppu_clock (ppu n) + 9 * int j \<le> 178343"
  shows "jmp_state (nes_run_cycles n (3 * int j))
         \<and> ppu_clock (ppu (nes_run_cycles n (3 * int j))) = ppu_clock (ppu n) + 9 * int j"
  using assms
proof (induction j arbitrary: n)
  case 0
  then show ?case by (simp add: nes_run_cycles_unfold [of n 0])
next
  case (Suc j)
  let ?m = "snd (nes_run_iteration n)"
  note it = jmp_iteration [OF Suc.prems(1)]
  have v: "ppu_pos_valid (ppu n)" using Suc.prems(1) by (simp add: jmp_state_def steady_def)
  have c9: "ppu_clock (ppu n) + int 9 \<le> 178343" using Suc.prems(2) by simp
  have cm: "ppu_clock (ppu ?m) = ppu_clock (ppu n) + 9"
    using ppu_steps_clock [OF v c9, of skip_test_rom] by (simp add: it(3))
  have "ppu_clock (ppu ?m) + 9 * int j \<le> 178343" using Suc.prems(2) cm by simp
  from Suc.IH [OF it(2) this]
  have ih: "jmp_state (nes_run_cycles ?m (3 * int j))"
    "ppu_clock (ppu (nes_run_cycles ?m (3 * int j))) = ppu_clock (ppu n) + 9 + 9 * int j"
    by (simp_all add: cm)
  have "nes_run_cycles n (3 * int (Suc j)) = nes_run_cycles ?m (3 * int j)"
    by (subst nes_run_cycles_unfold) (simp add: it(1) algebra_simps)
  with ih show ?case by (simp add: algebra_simps)
qed

lemma jmp_iteration_acc:
  assumes "jmp_state n" and "apu n = Some a"
  shows "map_option cpu_cycle_mod (apu (snd (nes_run_iteration n)))
           = Some (acc_after (cpu_cycle_mod a + 3))"
  using nes_run_iteration_acc [of n] jmp_iteration(1,4) [OF assms(1)] assms(2) by simp

lemma acc_after_low: "m < 3729 \<Longrightarrow> acc_after m = m"
  by (subst acc_after.simps) simp

lemma jmp_loop_acc:
  assumes "jmp_state n" and "apu n = Some a" and "cpu_cycle_mod a + 3 * int j < 3729"
  shows "map_option cpu_cycle_mod (apu (nes_run_cycles n (3 * int j)))
           = Some (cpu_cycle_mod a + 3 * int j)"
  using assms
proof (induction j arbitrary: n a)
  case 0
  then show ?case by (simp add: nes_run_cycles_unfold [of n 0])
next
  case (Suc j)
  let ?m = "snd (nes_run_iteration n)"
  note it = jmp_iteration [OF Suc.prems(1)]
  have "acc_after (cpu_cycle_mod a + 3) = cpu_cycle_mod a + 3"
    using Suc.prems(3) by (simp add: acc_after_low)
  with jmp_iteration_acc [OF Suc.prems(1,2)]
  obtain a1 where a1: "apu ?m = Some a1" "cpu_cycle_mod a1 = cpu_cycle_mod a + 3"
    by auto
  have "cpu_cycle_mod a1 + 3 * int j < 3729" using Suc.prems(3) a1(2) by simp
  from Suc.IH [OF it(2) a1(1) this]
  have ih: "map_option cpu_cycle_mod (apu (nes_run_cycles ?m (3 * int j)))
      = Some (cpu_cycle_mod a + 3 + 3 * int j)"
    by (simp add: a1(2))
  have "nes_run_cycles n (3 * int (Suc j)) = nes_run_cycles ?m (3 * int j)"
    by (subst nes_run_cycles_unfold) (simp add: it(1) algebra_simps)
  with ih show ?case by (simp add: algebra_simps)
qed

text \<open>The machine after power-on, loading the cartridge and reset, and after the first
  two instructions.\<close>

lemma skip_test_machine_boot:
  "steady skip_test_machine" "PC (cpu skip_test_machine) = 0x8000"
  "ppumask (ppu skip_test_machine) = 0" "ppu_clock (ppu skip_test_machine) = 0"
  "map_option cpu_cycle_mod (apu skip_test_machine) = Some 0"
  by (simp_all add: skip_test_machine_def nes_reset_def cpu_reset_def nes_load_rom_def
        nes_init_def cpu_connect_bus_def cpu_power_on_def ppu_power_on_def ppu_reset_def
        ppu_connect_cartridge_def apu_connect_bus_def apu_init_def
        cpu_read_def bus_cpu_read_def cart_cpu_read_def skip_test_rom_def skip_test_prg_def
        make16_def Let_def word_le_nat_alt FLAG_U_def FLAG_I_def
        steady_def rom_wired_def ppu_pos_valid_def ppu_clock_def ppu_pos_def)

lemma boot_lda:
  defines "m1 \<equiv> snd (nes_run_iteration skip_test_machine)"
  shows "fst (cpu_step skip_test_machine) = 2"
    and "steady m1" and "PC (cpu m1) = 0x8002" and "A (cpu m1) = 8"
    and "ppumask (ppu m1) = 0" and "ppu_clock (ppu m1) = 6"
    and "map_option cpu_cycle_mod (apu m1) = Some 2"
    and "iteration_skips skip_test_machine = 0"
proof -
  let ?n = skip_test_machine
  let ?n1 = "?n\<lparr>cpu := (cpu ?n)\<lparr>A := 8, PC := 0x8002, P := 0x24,
                                   cycles := cycles (cpu ?n) + 2\<rparr>\<rparr>"
  note b = skip_test_machine_boot
  have w: "rom_wired ?n" using b(1) by (simp add: steady_def)
  have st: "cpu_step ?n = (2, ?n1)" by (rule step_lda [OF w b(2)])
  have s1: "steady ?n1" using b(1) by (simp add: steady_def rom_wired_def)
  have v: "ppu_pos_valid (ppu ?n)" using b(1) by (simp add: steady_def)
  have c: "ppu_clock (ppu ?n) + int 6 \<le> 178343" by (simp add: b(4))
  note k = ppu_steps_clock [OF v c, of skip_test_rom]
  note it = iteration_steady [OF st s1]
  show "fst (cpu_step ?n) = 2" by (simp add: st)
  show "steady m1" unfolding m1_def by (rule it(2))
  show "PC (cpu m1) = 0x8002" unfolding m1_def using it(3) by simp
  show "A (cpu m1) = 8" unfolding m1_def using it(5) by simp
  have p: "ppu m1 = ppu_steps skip_test_rom 6 (ppu ?n)"
    unfolding m1_def using it(4) by simp
  show "ppumask (ppu m1) = 0"
    using ppu_steps_registers [of skip_test_rom 6 "ppu ?n"] by (simp add: p b(3))
  show "ppu_clock (ppu m1) = 6" using k by (simp add: p b(4))
  show "map_option cpu_cycle_mod (apu m1) = Some 2"
    unfolding m1_def using nes_run_iteration_acc [of ?n] b(5)
    by (auto simp add: st acc_after_low)
  have kk: "NES.cart ?n = skip_test_rom" using w by (simp add: rom_wired_def)
  show "iteration_skips ?n = 0"
    using k by (simp add: iteration_skips_def st kk)
qed

lemma boot_sta:
  defines "m1 \<equiv> snd (nes_run_iteration skip_test_machine)"
  defines "m2 \<equiv> snd (nes_run_iteration m1)"
  shows "fst (cpu_step m1) = 4"
    and "jmp_state m2" and "ppu_clock (ppu m2) = 18"
    and "map_option cpu_cycle_mod (apu m2) = Some 6"
    and "iteration_skips m1 = 0"
proof -
  note b = boot_lda [folded m1_def]
  let ?n1 = "m1\<lparr>cpu := (cpu m1)\<lparr>PC := 0x8005, cycles := cycles (cpu m1) + 4\<rparr>,
                ppu := (ppu m1)\<lparr>ppumask := A (cpu m1)\<rparr>\<rparr>"
  have w: "rom_wired m1" using b(2) by (simp add: steady_def)
  have st: "cpu_step m1 = (4, ?n1)" by (rule step_sta [OF w b(3)])
  have s1: "steady ?n1"
    using b(2) by (simp add: steady_def rom_wired_def ppu_pos_valid_def)
  let ?p1 = "(ppu m1)\<lparr>ppumask := A (cpu m1)\<rparr>"
  have v: "ppu_pos_valid ?p1" using s1 by (simp add: steady_def)
  have c1: "ppu_clock ?p1 = 6" using b(6) by (simp add: ppu_clock_def ppu_pos_def)
  have c: "ppu_clock ?p1 + int 12 \<le> 178343" by (simp only: c1)
  note k = ppu_steps_clock [OF v c, of skip_test_rom]
  note it = iteration_steady [OF st s1]
  show "fst (cpu_step m1) = 4" by (simp add: st)
  have p: "ppu m2 = ppu_steps skip_test_rom 12 ?p1"
    unfolding m2_def using it(4) by simp
  have "ppumask (ppu m2) = 8"
    using ppu_steps_registers [of skip_test_rom 12 ?p1] by (simp add: p b(4))
  moreover have "steady m2" unfolding m2_def by (rule it(2))
  moreover have "PC (cpu m2) = 0x8005" unfolding m2_def using it(3) by simp
  ultimately show "jmp_state m2" by (simp add: jmp_state_def)
  show "ppu_clock (ppu m2) = 18" using k by (simp only: p c1)
  show "map_option cpu_cycle_mod (apu m2) = Some 6"
    unfolding m2_def using nes_run_iteration_acc [of m1] b(7)
    by (auto simp add: st acc_after_low)
  have kk: "NES.cart m1 = skip_test_rom" using w by (simp add: rom_wired_def)
  show "iteration_skips m1 = 0"
    using k by (simp add: iteration_skips_def st kk)
qed

lemma boot_run:
  "nes_run_cycles skip_test_machine (6 + 3 * int j)
     = nes_run_cycles (snd (nes_run_iteration (snd (nes_run_iteration skip_test_machine))))
         (3 * int j)"
  by (subst nes_run_cycles_unfold, simp add: boot_lda(1))
     (subst nes_run_cycles_unfold, simp add: boot_sta(1))


text \<open>Two states of the running program: 19815 instructions after reset, where the PPU is
  eight dots before the pre-render line of the second frame, and 1242 instructions after
  reset, where the accumulator of the APU is three cycles below the first step time.\<close>

definition before_skip :: NES where
  "before_skip = nes_run_cycles skip_test_machine 59445"

definition before_wrap :: NES where
  "before_wrap = nes_run_cycles skip_test_machine 3726"

lemma before_skip_state:
  "jmp_state before_skip" "ppu_clock (ppu before_skip) = 178335"
proof -
  let ?m2 = "snd (nes_run_iteration (snd (nes_run_iteration skip_test_machine)))"
  have e: "before_skip = nes_run_cycles ?m2 (3 * int 19813)"
    unfolding before_skip_def using boot_run [of 19813] by simp
  have c: "ppu_clock (ppu ?m2) + 9 * int 19813 \<le> 178343" by (simp add: boot_sta(3))
  from jmp_loop [OF boot_sta(2) c]
  show "jmp_state before_skip" "ppu_clock (ppu before_skip) = 178335"
    by (simp_all add: e boot_sta(3))
qed

lemma before_wrap_state:
  "jmp_state before_wrap" "map_option cpu_cycle_mod (apu before_wrap) = Some 3726"
proof -
  let ?m2 = "snd (nes_run_iteration (snd (nes_run_iteration skip_test_machine)))"
  have e: "before_wrap = nes_run_cycles ?m2 (3 * int 1240)"
    unfolding before_wrap_def using boot_run [of 1240] by simp
  have c: "ppu_clock (ppu ?m2) + 9 * int 1240 \<le> 178343" by (simp add: boot_sta(3))
  from jmp_loop [OF boot_sta(2) c] show "jmp_state before_wrap" by (simp add: e)
  from boot_sta(4) obtain a where a: "apu ?m2 = Some a" "cpu_cycle_mod a = 6" by auto
  have "cpu_cycle_mod a + 3 * int 1240 < 3729" by (simp add: a(2))
  from jmp_loop_acc [OF boot_sta(2) a(1) this]
  show "map_option cpu_cycle_mod (apu before_wrap) = Some 3726" by (simp add: e a(2))
qed

lemma jmp_run_3:
  assumes "jmp_state n"
  shows "nes_run_cycles n 3 = snd (nes_run_iteration n)" and "run_cycles_steps n 3 = [n]"
proof -
  note it = jmp_iteration [OF assms]
  show "nes_run_cycles n 3 = snd (nes_run_iteration n)"
    by (subst nes_run_cycles_unfold, simp add: it(1))
       (subst nes_run_cycles_unfold, simp)
  show "run_cycles_steps n 3 = [n]"
    by (subst run_cycles_steps_unfold, simp add: it(1))
       (subst run_cycles_steps_unfold, simp)
qed

lemma before_skip_ppu:
  "ppu_pos_valid (ppu before_skip)" "ppumask (ppu before_skip) = 8"
  "ppu_pos (ppu before_skip) = 88993"
  "ppu_pos (ppu (nes_run_cycles before_skip 3)) = 89003"
  "iteration_skips before_skip = 1"
proof -
  let ?p = "ppu before_skip"
  let ?p8 = "ppu_steps skip_test_rom 8 ?p"
  note s = before_skip_state
  note it = jmp_iteration [OF s(1)]
  show v: "ppu_pos_valid ?p" and m: "ppumask ?p = 8"
    using s(1) by (simp_all add: jmp_state_def steady_def)
  have b: "0 \<le> ppu_pos ?p" "ppu_pos ?p < 89342"
    using v by (auto simp add: ppu_pos_valid_def ppu_pos_def)
  show "ppu_pos ?p = 88993"
    using s(2) b by (simp add: ppu_clock_def split: if_splits)
  have c: "ppu_clock ?p + int 8 \<le> 178343" by (simp add: s(2))
  from ppu_steps_clock [OF v c, of skip_test_rom]
  have v8: "ppu_pos_valid ?p8" and c8: "ppu_clock ?p8 = 178343"
    and k8: "skipped_dots skip_test_rom 8 ?p = 0"
    by (simp_all add: s(2))
  have m8: "ppumask ?p8 AND 0x18 \<noteq> 0"
    using ppu_steps_registers [of skip_test_rom 8 ?p] by (simp add: m)
  note sk = ppu_step_skip [OF v8 c8 m8, of skip_test_rom]
  have e9: "ppu_steps skip_test_rom 9 ?p = ppu_step skip_test_rom ?p8"
    using ppu_steps_add [of skip_test_rom 8 1 ?p] by simp
  show "ppu_pos (ppu (nes_run_cycles before_skip 3)) = 89003"
    using sk by (simp add: jmp_run_3(1) [OF s(1)] it(3) e9)
  have w: "rom_wired before_skip" and pc: "PC (cpu before_skip) = 0x8005"
    using s(1) by (simp_all add: jmp_state_def steady_def)
  have k: "NES.cart before_skip = skip_test_rom" using w by (simp add: rom_wired_def)
  have "skipped_dots skip_test_rom 9 ?p = 1"
    using skipped_dots_add [of skip_test_rom 8 1 ?p] sk by (simp add: k8)
  then show "iteration_skips before_skip = 1"
    by (simp add: iteration_skips_def step_jmp [OF w pc] k)
qed

lemma before_wrap_apu:
  "ppumask (ppu before_wrap) = 8"
  "map_option cpu_cycle_mod (apu (nes_run_cycles before_wrap 3)) = Some 0"
proof -
  note s = before_wrap_state
  show "ppumask (ppu before_wrap) = 8" using s(1) by (simp add: jmp_state_def)
  from s(2) obtain a where a: "apu before_wrap = Some a" "cpu_cycle_mod a = 3726" by auto
  have "acc_after 3729 = 0" by (subst acc_after.simps) simp
  with jmp_iteration_acc [OF s(1) a(1)]
  show "map_option cpu_cycle_mod (apu (nes_run_cycles before_wrap 3)) = Some 0"
    by (simp add: jmp_run_3(1) [OF s(1)] a(2))
qed

section \<open>Dots and APU cycles of a run\<close>

text \<open>The accumulator of the APU over a run of the loop, as long as no CPU step changes
  it (a write to 0x4017 does) and it stays below the first step time of the frame
  sequencer.\<close>

lemma cycles_used_nonneg: "0 \<le> cycles_used ms"
proof -
  have "0 \<le> fst (cpu_step m)" for m using cpu_step_cycles [of m] by simp
  then show ?thesis unfolding cycles_used_def by (induction ms) simp_all
qed

lemma nes_run_cycles_acc:
  assumes "apu n = Some a"
    and "\<forall>m \<in> set (run_cycles_steps n r).
           map_option cpu_cycle_mod (apu (snd (cpu_step m))) = map_option cpu_cycle_mod (apu m)"
    and "cpu_cycle_mod a + cycles_used (run_cycles_steps n r) < 3729"
  shows "map_option cpu_cycle_mod (apu (nes_run_cycles n r))
           = Some (cpu_cycle_mod a + cycles_used (run_cycles_steps n r))"
  using assms
proof (induction n r arbitrary: a rule: nes_run_cycles.induct)
  case (1 n r)
  show ?case
  proof (cases "0 < r")
    case False
    then show ?thesis
      using "1.prems"(1)
      by (simp add: nes_run_cycles_unfold [of n r] run_cycles_steps_unfold [of n r]
            cycles_used_def)
  next
    case True
    define u where "u = fst (cpu_step n)"
    define m where "m = snd (nes_run_iteration n)"
    define us where "us = cycles_used (run_cycles_steps m (r - u))"
    have p: "(u, m) = nes_run_iteration n"
      by (simp add: u_def m_def nes_run_iteration_used [symmetric])
    have e1: "nes_run_cycles n r = nes_run_cycles m (r - u)"
      using True by (simp add: nes_run_cycles_unfold [of n r] u_def m_def)
    have e2: "run_cycles_steps n r = n # run_cycles_steps m (r - u)"
      using True by (simp add: run_cycles_steps_unfold [of n r] u_def m_def)
    have e3: "cycles_used (run_cycles_steps n r) = u + us"
      by (simp add: e2 cycles_used_def u_def us_def)
    have us: "0 \<le> us" unfolding us_def by (rule cycles_used_nonneg)
    have lt: "cpu_cycle_mod a + u < 3729" using "1.prems"(3) us by (simp add: e3)
    have "map_option cpu_cycle_mod (apu (snd (cpu_step n))) = Some (cpu_cycle_mod a)"
      using "1.prems"(1,2) by (simp add: e2)
    then obtain b where b: "apu (snd (cpu_step n)) = Some b" "cpu_cycle_mod b = cpu_cycle_mod a"
      by auto
    have "map_option cpu_cycle_mod (apu m) = Some (cpu_cycle_mod a + u)"
      using nes_run_iteration_acc [of n] lt
      by (simp add: m_def u_def b acc_after_low)
    then obtain a1 where a1: "apu m = Some a1" "cpu_cycle_mod a1 = cpu_cycle_mod a + u"
      by auto
    have k: "\<forall>x \<in> set (run_cycles_steps m (r - u)).
           map_option cpu_cycle_mod (apu (snd (cpu_step x))) = map_option cpu_cycle_mod (apu x)"
      using "1.prems"(2) by (simp add: e2)
    have l: "cpu_cycle_mod a1 + cycles_used (run_cycles_steps m (r - u)) < 3729"
      using "1.prems"(3) by (simp add: e3 a1(2) us_def)
    from "1.IH" [OF True refl p a1(1) k l]
    show ?thesis by (simp add: e1 e3 a1(2) us_def add.assoc)
  qed
qed

text \<open>
  Claim C2, as the code has it. From a machine whose PPU position is in range,
  \<open>nes_run_cycles\<close> advances the position, counted in dots modulo 341 * 262, by three
  times the sum of the returns of the executed CPU steps plus the number of skipped dots:
  one for every dot step that starts on dot 0 of the pre-render line of an odd frame with
  rendering enabled. The same holds for each iteration of the loop. The accumulator of the
  APU, when there is an APU, advances by the sum of the returns of the executed CPU steps
  in a run in which no CPU step changes the accumulator and the accumulator stays below
  3729, the first step time of the frame sequencer.
\<close>

theorem run_cycles_dots_and_apu_cycles:
  assumes "ppu_pos_valid (ppu n)"
  shows "ppu_pos (ppu (nes_run_cycles n r))
           = (ppu_pos (ppu n) + 3 * cycles_used (run_cycles_steps n r)
                + dots_skipped (run_cycles_steps n r)) mod (341 * 262)
    \<and> ppu_pos (ppu (snd (nes_run_iteration n)))
           = (ppu_pos (ppu n) + 3 * fst (cpu_step n) + int (iteration_skips n)) mod (341 * 262)
    \<and> (\<forall>a. apu n = Some a
           \<longrightarrow> (\<forall>m \<in> set (run_cycles_steps n r).
                  map_option cpu_cycle_mod (apu (snd (cpu_step m)))
                    = map_option cpu_cycle_mod (apu m))
           \<longrightarrow> cpu_cycle_mod a + cycles_used (run_cycles_steps n r) < 3729
           \<longrightarrow> map_option cpu_cycle_mod (apu (nes_run_cycles n r))
                 = Some (cpu_cycle_mod a + cycles_used (run_cycles_steps n r)))"
proof -
  have "map_option cpu_cycle_mod (apu (nes_run_cycles n r))
          = Some (cpu_cycle_mod a + cycles_used (run_cycles_steps n r))"
    if "apu n = Some a"
      and "\<forall>m \<in> set (run_cycles_steps n r).
             map_option cpu_cycle_mod (apu (snd (cpu_step m))) = map_option cpu_cycle_mod (apu m)"
      and "cpu_cycle_mod a + cycles_used (run_cycles_steps n r) < 3729" for a
    using that by (rule nes_run_cycles_acc)
  with nes_run_cycles_pos [OF assms, of r] nes_run_iteration_pos [OF assms]
  show ?thesis by simp
qed

lemma boot_run_6:
  "run_cycles_steps skip_test_machine 6
     = [skip_test_machine, snd (nes_run_iteration skip_test_machine)]"
  "apu (snd (cpu_step skip_test_machine)) = apu skip_test_machine"
  "apu (snd (cpu_step (snd (nes_run_iteration skip_test_machine))))
     = apu (snd (nes_run_iteration skip_test_machine))"
proof -
  let ?m1 = "snd (nes_run_iteration skip_test_machine)"
  show "run_cycles_steps skip_test_machine 6 = [skip_test_machine, ?m1]"
    by (subst run_cycles_steps_unfold, simp add: boot_lda(1))
       (subst run_cycles_steps_unfold, simp add: boot_sta(1),
        subst run_cycles_steps_unfold, simp)
  have w0: "rom_wired skip_test_machine"
    using skip_test_machine_boot(1) by (simp add: steady_def)
  show "apu (snd (cpu_step skip_test_machine)) = apu skip_test_machine"
    by (simp add: step_lda [OF w0 skip_test_machine_boot(2)])
  have w1: "rom_wired ?m1" using boot_lda(2) by (simp add: steady_def)
  show "apu (snd (cpu_step ?m1)) = apu ?m1"
    by (simp add: step_sta [OF w1 boot_lda(3)])
qed

theorem run_cycles_dots_and_apu_cycles_witness:
  "ppu_pos_valid (ppu before_skip)
   \<and> cycles_used (run_cycles_steps before_skip 3) = 3
   \<and> dots_skipped (run_cycles_steps before_skip 3) = 1
   \<and> ppu_pos (ppu (nes_run_cycles before_skip 3)) = (88993 + 3 * 3 + 1) mod (341 * 262)
   \<and> ppu_pos_valid (ppu skip_test_machine)
   \<and> map_option cpu_cycle_mod (apu skip_test_machine) = Some 0
   \<and> cycles_used (run_cycles_steps skip_test_machine 6) = 6
   \<and> map_option cpu_cycle_mod (apu (nes_run_cycles skip_test_machine 6)) = Some (0 + 6)"
proof -
  note s = before_skip_state
  have vs: "ppu_pos_valid (ppu before_skip)" by (rule before_skip_ppu(1))
  have vm: "ppu_pos_valid (ppu skip_test_machine)"
    using skip_test_machine_boot(1) by (simp add: steady_def)
  have u: "cycles_used (run_cycles_steps before_skip 3) = 3"
    by (simp add: jmp_run_3(2) [OF s(1)] cycles_used_def jmp_iteration(1) [OF s(1)])
  have d: "dots_skipped (run_cycles_steps before_skip 3) = 1"
    by (simp add: jmp_run_3(2) [OF s(1)] dots_skipped_def before_skip_ppu(5))
  from skip_test_machine_boot(5)
  obtain a where a: "apu skip_test_machine = Some a" "cpu_cycle_mod a = 0" by auto
  have u6: "cycles_used (run_cycles_steps skip_test_machine 6) = 6"
    by (simp add: boot_run_6(1) cycles_used_def boot_lda(1) boot_sta(1))
  have k: "\<forall>m \<in> set (run_cycles_steps skip_test_machine 6).
      map_option cpu_cycle_mod (apu (snd (cpu_step m))) = map_option cpu_cycle_mod (apu m)"
    by (simp add: boot_run_6)
  from run_cycles_dots_and_apu_cycles [OF vs, of 3]
  have "ppu_pos (ppu (nes_run_cycles before_skip 3)) = (88993 + 3 * 3 + 1) mod (341 * 262)"
    by (simp add: u d before_skip_ppu(3))
  moreover from run_cycles_dots_and_apu_cycles [OF vm, of 6] a k
  have "map_option cpu_cycle_mod (apu (nes_run_cycles skip_test_machine 6)) = Some (0 + 6)"
    by (simp add: u6)
  ultimately show ?thesis using vs vm u d u6 skip_test_machine_boot(5) by simp
qed

text \<open>
  Claim C2 as stated fails on both counts, on the machine that has run the program above
  from reset with rendering enabled. After 59445 cycles the PPU is at dot 88993 of the
  second frame; the next CPU step returns 3, and the position afterwards is 89003: ten
  dots on, not nine. After 3726 cycles the accumulator of the APU is 3726; the next CPU
  step returns 3, and the accumulator afterwards is 0, not 3729. The skipped dot is what
  \<open>ppu_step\<close> sets out to do. The accumulator set to 0 at the first step time is at odds
  with the four step times that \<open>apu_tick_cpu_cycles\<close> lists: it keeps the accumulator
  from reaching the later three.
\<close>

theorem run_cycles_skips_dot_and_resets_accumulator:
  "ppumask (ppu before_skip) = 8
   \<and> run_cycles_steps before_skip 3 = [before_skip]
   \<and> fst (cpu_step before_skip) = 3
   \<and> ppu_pos (ppu before_skip) = 88993
   \<and> ppu_pos (ppu (nes_run_cycles before_skip 3)) = 89003
   \<and> ppumask (ppu before_wrap) = 8
   \<and> run_cycles_steps before_wrap 3 = [before_wrap]
   \<and> fst (cpu_step before_wrap) = 3
   \<and> map_option cpu_cycle_mod (apu before_wrap) = Some 3726
   \<and> map_option cpu_cycle_mod (apu (nes_run_cycles before_wrap 3)) = Some 0"
  using before_skip_ppu(2,3,4) before_wrap_apu before_wrap_state(2)
    jmp_run_3(2) [OF before_skip_state(1)] jmp_run_3(2) [OF before_wrap_state(1)]
    jmp_iteration(1) [OF before_skip_state(1)] jmp_iteration(1) [OF before_wrap_state(1)]
  by simp

text \<open>Ticked by the returns of \<open>cpu_step\<close>, an accumulator below the first step time
  stays below it: the branch of the frame sequencer for the last step time, with the
  half-frame clock and the frame interrupt, is out of reach of the loop.\<close>

lemma accumulator_stays_below_first_step:
  assumes "0 \<le> cpu_cycle_mod a" and "cpu_cycle_mod a < 3729" and "2 \<le> c" and "c \<le> 7"
  shows "0 \<le> cpu_cycle_mod (apu_tick_frame_sequencer a c)
         \<and> cpu_cycle_mod (apu_tick_frame_sequencer a c) < 3729"
proof -
  have "acc_after (cpu_cycle_mod a + c)
      = (if cpu_cycle_mod a + c < 3729 then cpu_cycle_mod a + c else 0)"
    using assms by (subst acc_after.simps) simp
  then show ?thesis using assms by (simp add: apu_tick_frame_sequencer_acc)
qed

end
